theory Spec2Isabelle
  imports Main "HOL-Library.Multiset"
begin

section \<open>Strings of the runtime\<close>

text \<open>
  A JavaScript string is a sequence of UTF-16 code units, and \<open>split("")\<close>, indexing and
  the regular expressions of \<open>App.js\<close> (none carries the \<open>u\<close> flag) all work on code
  units. A string is therefore a list of code units, each a natural number. An array of
  strings is a list of such lists; the empty string \<open>[]\<close> is the only falsy string.
\<close>

type_synonym jstring = "nat list"

definition js :: "string \<Rightarrow> jstring" where
  "js s = map of_char s"

text \<open>
  \<open>String.prototype.toLowerCase\<close> and \<open>toUpperCase\<close> belong to the runtime, which
  maps by the Unicode case tables. The model carries the part of the tables for a
  repertoire of code units: Basic Latin and Latin-1 (U+0000 to U+00FF), the Cyrillic
  block U+0400 to U+045F (which holds the letters of \<open>ALPHA\<close> and of the letter class) and
  the Latin ligatures U+FB00 to U+FB06. On a string of this repertoire both mappings
  work unit by unit, with no dependence on the context; they are the functions
  \<open>lower_unit\<close> and \<open>upper_unit\<close>. Upper-casing can lengthen the string: sharp s and the
  ligatures expand to two or three letters, and two Latin-1 letters leave Latin-1.
\<close>

definition in_repertoire :: "nat \<Rightarrow> bool" where
  "in_repertoire c \<longleftrightarrow> c \<le> 0xFF \<or> (0x400 \<le> c \<and> c \<le> 0x45F) \<or> (0xFB00 \<le> c \<and> c \<le> 0xFB06)"

definition lower_unit :: "nat \<Rightarrow> nat" where
  "lower_unit c =
     (if 65 \<le> c \<and> c \<le> 90 then c + 32
      else if 0xC0 \<le> c \<and> c \<le> 0xDE \<and> c \<noteq> 0xD7 then c + 32
      else if 0x410 \<le> c \<and> c \<le> 0x42F then c + 32
      else if 0x400 \<le> c \<and> c \<le> 0x40F then c + 80
      else c)"

definition upper_unit :: "nat \<Rightarrow> jstring" where
  "upper_unit c =
     (if 97 \<le> c \<and> c \<le> 122 then [c - 32]
      else if 0xE0 \<le> c \<and> c \<le> 0xFE \<and> c \<noteq> 0xF7 then [c - 32]
      else if c = 0xDF then [83, 83]
      else if c = 0xFF then [0x178]
      else if c = 0xB5 then [0x39C]
      else if 0x430 \<le> c \<and> c \<le> 0x44F then [c - 32]
      else if 0x450 \<le> c \<and> c \<le> 0x45F then [c - 80]
      else if c = 0xFB00 then [70, 70]
      else if c = 0xFB01 then [70, 73]
      else if c = 0xFB02 then [70, 76]
      else if c = 0xFB03 then [70, 70, 73]
      else if c = 0xFB04 then [70, 70, 76]
      else if c = 0xFB05 \<or> c = 0xFB06 then [83, 84]
      else [c])"

text \<open>
  Outside the repertoire the tables are not part of the model: what the runtime returns
  for a string with another code unit is \<open>unicode_case up w\<close>, a value for each of the
  two mappings and each string about which nothing is assumed. The general theorems
  below hold for whatever the two mappings return; the concrete runs evaluate them on
  text of the repertoire.
\<close>

definition unicode_case :: "bool \<Rightarrow> jstring \<Rightarrow> jstring" where
  "unicode_case = undefined"

definition toLowerCase :: "jstring \<Rightarrow> jstring" where
  "toLowerCase w = (if list_all in_repertoire w then map lower_unit w else unicode_case False w)"

definition toUpperCase :: "jstring \<Rightarrow> jstring" where
  "toUpperCase w =
     (if list_all in_repertoire w then concat (map upper_unit w) else unicode_case True w)"

text \<open>
  The class \<open>\s\<close> of a regular expression and the characters \<open>trim()\<close> strips are the
  same set: WhiteSpace and LineTerminator of the language definition.
\<close>

definition is_space :: "nat \<Rightarrow> bool" where
  "is_space c \<longleftrightarrow>
     (9 \<le> c \<and> c \<le> 13) \<or> c = 32 \<or> c = 0xA0 \<or> c = 0x1680 \<or> (0x2000 \<le> c \<and> c \<le> 0x200A)
     \<or> c = 0x2028 \<or> c = 0x2029 \<or> c = 0x202F \<or> c = 0x205F \<or> c = 0x3000 \<or> c = 0xFEFF"

definition trim :: "jstring \<Rightarrow> jstring" where
  "trim w = rev (dropWhile is_space (rev (dropWhile is_space w)))"

text \<open>\<open>split("")\<close>: one string per code unit. \<open>join("")\<close> is \<^const>\<open>concat\<close>.\<close>

definition split_units :: "jstring \<Rightarrow> jstring list" where
  "split_units w = map (\<lambda>c. [c]) w"

section \<open>Normalizer\<close>

text \<open>
  The punctuation class of \<open>normalizeWord\<close>: hyphen, underscore, apostrophe,
  backquote, full stop, comma, exclamation and question mark, the two guillemets
  (U+00AB, U+00BB) and the two parentheses.
\<close>

definition is_punct :: "nat \<Rightarrow> bool" where
  "is_punct c \<longleftrightarrow> c \<in> {45, 95, 39, 96, 46, 44, 33, 63, 0xAB, 0xBB, 40, 41}"

definition normalizeWord :: "jstring \<Rightarrow> jstring" where
  "normalizeWord w =
     toLowerCase (filter (\<lambda>c. \<not> is_punct c) (filter (\<lambda>c. \<not> is_space c) w))"

section \<open>Randomness\<close>

text \<open>
  \<open>Math.random()\<close> is the only source of nondeterminism. Both uses have the shape
  \<open>Math.floor(Math.random() * n)\<close> with \<open>n > 0\<close>, an index below \<open>n\<close>. The model takes
  the sequence of raw draws as a function \<open>g\<close> and the number \<open>k\<close> of draws made so far;
  the next index is \<open>g k mod n\<close>. Every run of the program is the run of the model
  for some \<open>g\<close>, and every \<open>g\<close> gives indices in range.
\<close>

type_synonym rng = "nat \<Rightarrow> nat"

definition swap :: "'a list \<Rightarrow> nat \<Rightarrow> nat \<Rightarrow> 'a list" where
  "swap a i j = a[i := a ! j, j := a ! i]"

text \<open>
  The loop of \<open>shuffle\<close> runs \<open>i\<close> from \<open>a.length - 1\<close> down to 1, swapping \<open>a[i]\<close> with
  \<open>a[j]\<close> for a drawn \<open>j \<le> i\<close>. It returns the array and the number of draws made.
\<close>

fun shuffle_loop :: "rng \<Rightarrow> nat \<Rightarrow> nat \<Rightarrow> 'a list \<Rightarrow> 'a list \<times> nat" where
  "shuffle_loop g k 0 a = (a, k)"
| "shuffle_loop g k (Suc i) a =
     shuffle_loop g (Suc k) i (swap a (Suc i) (g k mod (Suc i + 1)))"

definition shuffle :: "rng \<Rightarrow> nat \<Rightarrow> 'a list \<Rightarrow> 'a list \<times> nat" where
  "shuffle g k arr = shuffle_loop g k (length arr - 1) arr"

section \<open>Bank generator\<close>

text \<open>
  \<open>ALPHA\<close>: the 33 lower-case Cyrillic letters (with U+0451 after U+0435) followed by the
  26 upper-case Latin letters.
\<close>

definition ALPHA :: jstring where
  "ALPHA = [0x430, 0x431, 0x432, 0x433, 0x434, 0x435, 0x451] @ [0x436 ..< 0x450] @ [65 ..< 91]"

text \<open>The \<open>while\<close> loop of \<open>makeLetterBank\<close>: push a drawn letter until \<open>size\<close> (here \<open>sz\<close>) is reached.\<close>

function fill_bank :: "rng \<Rightarrow> nat \<Rightarrow> nat \<Rightarrow> jstring list \<Rightarrow> jstring list \<times> nat" where
  "fill_bank g k sz base =
     (if length base < sz
      then fill_bank g (Suc k) sz (base @ [[ALPHA ! (g k mod length ALPHA)]])
      else (base, k))"
  by pat_completeness auto
termination
  by (relation "measure (\<lambda>(g, k, sz, base). sz - length base)") auto

declare fill_bank.simps [simp del]

definition bank_size :: "jstring list \<Rightarrow> nat" where
  "bank_size base = max 12 (min 16 (length base + 6))"

definition makeLetterBank :: "rng \<Rightarrow> nat \<Rightarrow> jstring \<Rightarrow> jstring list \<times> nat" where
  "makeLetterBank g k normTarget =
     (let base = split_units (toUpperCase normTarget);
          sz = bank_size base;
          (filled, k1) = fill_bank g k sz base;
          (a, k2) = shuffle g k1 filled
      in (take sz a, k2))"

section \<open>Slots\<close>

text \<open>The letter class of \<open>displayWord\<close>: Latin letters, U+0410 to U+044F, U+0451, U+0401.\<close>

definition is_letter :: "nat \<Rightarrow> bool" where
  "is_letter c \<longleftrightarrow>
     (97 \<le> c \<and> c \<le> 122) \<or> (65 \<le> c \<and> c \<le> 90) \<or> (0x430 \<le> c \<and> c \<le> 0x44F)
     \<or> (0x410 \<le> c \<and> c \<le> 0x42F) \<or> c = 0x451 \<or> c = 0x401"

record slot =
  char :: jstring
  isLetter :: bool
  slot_revealed :: bool

text \<open>
  \<open>displayWord\<close> as a function of the two values it is memoised on. The flag
  \<open>revealed\<close> of a slot compares the position \<open>i\<close> in the target string with the count.
\<close>

definition displayWord_of :: "jstring \<Rightarrow> nat \<Rightarrow> slot list" where
  "displayWord_of tgt revealedCount =
     map (\<lambda>(i, c). \<lparr>char = [c], isLetter = is_letter c, slot_revealed = (i < revealedCount)\<rparr>)
       (enumerate 0 tgt)"

text \<open>
  \<open>rebuildWithPunctuation\<close>: the \<open>map\<close> over the slots with its counter \<open>pos\<close> into
  \<open>letters\<close>. \<open>letters[pos]\<close> out of range is \<open>undefined\<close>, which \<open>|| ""\<close> turns into
  the empty string.
\<close>

fun rebuild_loop :: "jstring list \<Rightarrow> nat \<Rightarrow> slot list \<Rightarrow> jstring list" where
  "rebuild_loop letters pos [] = []"
| "rebuild_loop letters pos (x # xs) =
     (if \<not> isLetter x then char x # rebuild_loop letters pos xs
      else if slot_revealed x then char x # rebuild_loop letters pos xs
      else (if pos < length letters then letters ! pos else []) # rebuild_loop letters (pos + 1) xs)"

definition rebuildWithPunctuation :: "(jstring \<times> nat) list \<Rightarrow> slot list \<Rightarrow> nat \<Rightarrow> jstring" where
  "rebuildWithPunctuation pk dw revealedCount = concat (rebuild_loop (map fst pk) 0 dw)"

fun findIndex :: "('a \<Rightarrow> bool) \<Rightarrow> 'a list \<Rightarrow> nat option" where
  "findIndex P [] = None"
| "findIndex P (x # xs) = (if P x then Some 0 else map_option Suc (findIndex P xs))"

text \<open>
  \<open>renderPickedChar\<close>: \<open>findIndex\<close> gives -1 when nothing matches, and an index below
  zero or beyond the end of \<open>picked\<close> reads \<open>undefined\<close>, shown as the empty string.
\<close>

definition renderPickedChar :: "slot list \<Rightarrow> (jstring \<times> nat) list \<Rightarrow> nat \<Rightarrow> nat \<Rightarrow> jstring" where
  "renderPickedChar dw pk revealedCount idx =
     (let letterSlots = filter (\<lambda>(x, i). isLetter x) (zip dw [0 ..< length dw])
      in case findIndex (\<lambda>(x, i). i = idx) letterSlots of
           None \<Rightarrow> []
         | Some logicalIndex \<Rightarrow>
             if revealedCount \<le> logicalIndex \<and> logicalIndex - revealedCount < length pk
             then fst (pk ! (logicalIndex - revealedCount)) else [])"

section \<open>Puzzle engine\<close>

datatype status = Idle | Correct | Wrong

record item =
  word :: jstring
  hint_text :: "jstring option"

text \<open>
  The state of the component: the six \<open>useState\<close> cells, the session store (the value
  under the key \<open>custom-words\<close>, kept as the list it serialises) and the random source.
  An entry of \<open>picked\<close> is the pair \<open>(ch, i)\<close>.
\<close>

record engine =
  items :: "item list"
  index :: nat
  picked :: "(jstring \<times> nat) list"
  shuffled :: "jstring list"
  status :: status
  revealed :: nat
  store :: "item list option"
  rnd :: rng
  drawn :: nat

definition current :: "engine \<Rightarrow> item option" where
  "current s = (if index s < length (items s) then Some (items s ! index s) else None)"

definition target :: "engine \<Rightarrow> jstring" where
  "target s = trim (case current s of None \<Rightarrow> [] | Some it \<Rightarrow> word it)"

definition normalizedTarget :: "engine \<Rightarrow> jstring" where
  "normalizedTarget s = normalizeWord (target s)"

definition displayWord :: "engine \<Rightarrow> slot list" where
  "displayWord s = displayWord_of (target s) (revealed s)"

text \<open>\<open>slots\<close> of \<open>onTileClick\<close> and \<open>hint\<close>: the letter slots.\<close>

definition slots :: "engine \<Rightarrow> slot list" where
  "slots s = filter isLetter (displayWord s)"

text \<open>The effect that runs after a render in which \<open>index\<close> or \<open>normalizedTarget\<close> changed.\<close>

definition effect :: "engine \<Rightarrow> engine" where
  "effect s =
     (case current s of
        None \<Rightarrow> s
      | Some _ \<Rightarrow>
          (let (bank, k1) = makeLetterBank (rnd s) (drawn s) (normalizedTarget s);
               (sh, k2) = shuffle (rnd s) k1 bank
           in s\<lparr>shuffled := sh, picked := [], status := Idle, revealed := 0, drawn := k2\<rparr>))"

definition rerender :: "engine \<Rightarrow> engine \<Rightarrow> engine" where
  "rerender old new =
     (if index new \<noteq> index old \<or> normalizedTarget new \<noteq> normalizedTarget old
      then effect new else new)"

definition onTileClick :: "jstring \<Rightarrow> nat \<Rightarrow> engine \<Rightarrow> engine" where
  "onTileClick ch i s =
     (if status s \<noteq> Idle then s
      else let filledCount = length (picked s) + revealed s
           in if filledCount \<ge> length (slots s) then s
              else s\<lparr>picked := picked s @ [(ch, i)], shuffled := (shuffled s)[i := []]\<rparr>)"

text \<open>
  The tile button at bank position \<open>i\<close>: it exists for the positions of \<open>shuffled\<close>, is
  disabled when the tile is empty, and otherwise calls \<open>onTileClick(ch, i)\<close> with the
  tile's letter.
\<close>

definition pick :: "nat \<Rightarrow> engine \<Rightarrow> engine" where
  "pick i s =
     (if i < length (shuffled s) \<and> shuffled s ! i \<noteq> [] then onTileClick (shuffled s ! i) i s
      else s)"

definition removeLast :: "engine \<Rightarrow> engine" where
  "removeLast s =
     (if picked s = [] \<or> status s \<noteq> Idle then s
      else let lst = last (picked s)
           in s\<lparr>picked := butlast (picked s), shuffled := (shuffled s)[snd lst := fst lst]\<rparr>)"

definition check :: "engine \<Rightarrow> engine" where
  "check s =
     (case current s of
        None \<Rightarrow> s
      | Some _ \<Rightarrow>
          (let userFull = rebuildWithPunctuation (picked s) (displayWord s) (revealed s);
               normalizedUser = normalizeWord userFull;
               ok = (normalizedUser = normalizedTarget s)
           in s\<lparr>status := (if ok then Correct else Wrong)\<rparr>))"

definition "next" :: "engine \<Rightarrow> engine" where
  "next s = rerender s (s\<lparr>index := (if index s + 1 < length (items s) then index s + 1 else 0)\<rparr>)"

definition hint :: "engine \<Rightarrow> engine" where
  "hint s = (if revealed s \<ge> length (slots s) then s else s\<lparr>revealed := revealed s + 1\<rparr>)"

definition shuffleBank :: "engine \<Rightarrow> engine" where
  "shuffleBank s =
     (let (b, k) = shuffle (rnd s) (drawn s) (shuffled s) in s\<lparr>shuffled := b, drawn := k\<rparr>)"

definition reset :: "engine \<Rightarrow> engine" where
  "reset s =
     (let (b, k) = shuffle (rnd s) (drawn s) (filter (\<lambda>c. c \<noteq> []) (shuffled s))
      in s\<lparr>picked := [], status := Idle, revealed := 0, shuffled := b, drawn := k\<rparr>)"

text \<open>What the row of target slots shows (the body of \<open>displayWord.map\<close> in the view).\<close>

definition shown :: "engine \<Rightarrow> jstring list" where
  "shown s =
     map (\<lambda>(idx, slot).
            if isLetter slot
            then (if idx < revealed s then [target s ! idx]
                  else renderPickedChar (displayWord s) (picked s) (revealed s) idx)
            else char slot)
       (enumerate 0 (displayWord s))"

datatype event = Pick nat | RemoveLast | Hint | Check | Next | ShuffleBank | Reset

fun fire :: "event \<Rightarrow> engine \<Rightarrow> engine" where
  "fire (Pick i) s = pick i s"
| "fire RemoveLast s = removeLast s"
| "fire Hint s = hint s"
| "fire Check s = check s"
| "fire Next s = next s"
| "fire ShuffleBank s = shuffleBank s"
| "fire Reset s = reset s"

definition run :: "event list \<Rightarrow> engine \<Rightarrow> engine" where
  "run evs s = foldl (\<lambda>s e. fire e s) s evs"

section \<open>Ingestion\<close>

text \<open>\<open>split\<close> on a one-character separator; the result is never empty.\<close>

fun split_on :: "(nat \<Rightarrow> bool) \<Rightarrow> jstring \<Rightarrow> jstring list" where
  "split_on P [] = [[]]"
| "split_on P (c # cs) =
     (if P c then [] # split_on P cs
      else case split_on P cs of [] \<Rightarrow> [[c]] | x # xs \<Rightarrow> (c # x) # xs)"

text \<open>\<open>split(/\r?\n/)\<close>: a line feed ends a line, and takes a carriage return before it along.\<close>

fun split_lines :: "jstring \<Rightarrow> jstring list" where
  "split_lines [] = [[]]"
| "split_lines (c # cs) =
     (if c = 10 then [] # split_lines cs
      else case cs of
             [] \<Rightarrow> [[c]]
           | d # ds \<Rightarrow>
               if c = 13 \<and> d = 10 then [] # split_lines ds
               else (case split_lines cs of [] \<Rightarrow> [[c]] | x # xs \<Rightarrow> (c # x) # xs))"

text \<open>Reading an array at an index: \<open>undefined\<close> beyond the end.\<close>

definition cell :: "'a list \<Rightarrow> nat \<Rightarrow> 'a option" where
  "cell r n = (if n < length r then Some (r ! n) else None)"

text \<open>
  \<open>parseTXT\<close>. The destructuring \<open>[w, h] = line.split("|")\<close> takes the first two
  pieces; \<open>h\<close> is \<open>undefined\<close> when there is no second piece, and an empty \<open>h\<close> is falsy.
\<close>

definition txt_item :: "jstring \<Rightarrow> item" where
  "txt_item line =
     (let parts = split_on (\<lambda>c. c = 124) line;
          w = cell parts 0;
          h = cell parts 1
      in \<lparr>word = trim (case w of None \<Rightarrow> [] | Some t \<Rightarrow> t),
          hint_text = (case h of None \<Rightarrow> None | Some t \<Rightarrow> if t = [] then None else Some (trim t))\<rparr>)"

definition parseTXT :: "jstring \<Rightarrow> item list" where
  "parseTXT txt =
     filter (\<lambda>x. length (word x) > 0)
       (map txt_item (filter (\<lambda>l. l \<noteq> []) (map trim (split_lines txt))))"

text \<open>
  \<open>parseCSV\<close>. The loop pushes an item for each row from \<open>start\<close> on whose first cell
  is a non-empty string; the hint is the second cell, \<open>undefined\<close> when there is none.
\<close>

definition csv_row :: "jstring \<Rightarrow> jstring list" where
  "csv_row l = map trim (split_on (\<lambda>c. c = 44 \<or> c = 59 \<or> c = 9) l)"

definition csv_item :: "jstring list \<Rightarrow> item option" where
  "csv_item r =
     (case cell r 0 of
        None \<Rightarrow> None
      | Some w \<Rightarrow> if w = [] then None else Some \<lparr>word = w, hint_text = cell r 1\<rparr>)"

definition parseCSV :: "jstring \<Rightarrow> item list" where
  "parseCSV txt =
     (let lines = filter (\<lambda>l. l \<noteq> []) (split_lines txt);
          rows = map csv_row lines;
          maybeHeader = (case cell rows 0 of
                           None \<Rightarrow> False
                         | Some r \<Rightarrow> (case cell r 0 of
                                       None \<Rightarrow> False
                                     | Some c \<Rightarrow> toLowerCase c = js ''word''));
          start = (if maybeHeader then 1 else 0)
      in List.map_filter csv_item (drop start rows))"

text \<open>
  The value \<open>JSON.parse\<close> returns. A number is kept as the string \<open>String\<close> gives for
  it, which also decides whether it is falsy; an object is its list of members, one
  for each key.
\<close>

datatype json =
    JNull
  | JBool bool
  | JNum jstring
  | JStr jstring
  | JArr "json list"
  | JObj "(jstring \<times> json) list"

fun truthy :: "json \<Rightarrow> bool" where
  "truthy JNull = False"
| "truthy (JBool b) = b"
| "truthy (JNum r) = (r \<noteq> js ''0'')"
| "truthy (JStr t) = (t \<noteq> [])"
| "truthy (JArr xs) = True"
| "truthy (JObj kvs) = True"

fun join_comma :: "jstring list \<Rightarrow> jstring" where
  "join_comma [] = []"
| "join_comma [x] = x"
| "join_comma (x # y # ys) = x @ [44] @ join_comma (y # ys)"

datatype upload_error = SyntaxError | TypeError | NoWords

fun collect :: "('e + 'a) list \<Rightarrow> 'e + 'a list" where
  "collect [] = Inr []"
| "collect (Inl e # rs) = Inl e"
| "collect (Inr a # rs) = (case collect rs of Inl e \<Rightarrow> Inl e | Inr as \<Rightarrow> Inr (a # as))"

text \<open>
  \<open>String(v)\<close>. An array is joined with commas, \<open>null\<close> elements giving the empty string.
  An object goes through its \<open>toString\<close>: a parsed object with a member of that name has
  no callable one (and its \<open>valueOf\<close> gives no primitive), so the conversion throws a
  TypeError; any other parsed object inherits the one that gives \<open>[object Object]\<close>.
\<close>

fun String_of :: "json \<Rightarrow> upload_error + jstring" where
  "String_of JNull = Inr (js ''null'')"
| "String_of (JBool b) = Inr (if b then js ''true'' else js ''false'')"
| "String_of (JNum r) = Inr r"
| "String_of (JStr t) = Inr t"
| "String_of (JArr xs) =
     (case collect (map (\<lambda>x. if x = JNull then Inr [] else String_of x) xs) of
        Inl e \<Rightarrow> Inl e
      | Inr parts \<Rightarrow> Inr (join_comma parts))"
| "String_of (JObj kvs) =
     (if map_of kvs (js ''toString'') \<noteq> None then Inl TypeError
      else Inr (js ''[object Object]''))"

text \<open>
  Reading a member: of \<open>null\<close> it throws a TypeError, of an object it is the member or
  \<open>undefined\<close>, and a parsed array, string, number or boolean has no member called
  \<open>word\<close> or \<open>hint\<close>.
\<close>

definition member :: "json \<Rightarrow> jstring \<Rightarrow> upload_error + json option" where
  "member x key =
     (case x of JNull \<Rightarrow> Inl TypeError | JObj kvs \<Rightarrow> Inr (map_of kvs key) | _ \<Rightarrow> Inr None)"

text \<open>
  The body of \<open>j.map\<close>: \<open>String(x.word || "").trim()\<close> for the word and
  \<open>x.hint ? String(x.hint) : undefined\<close> for the hint.
\<close>

definition json_item :: "json \<Rightarrow> upload_error + item" where
  "json_item x =
     (case member x (js ''word'') of
        Inl e \<Rightarrow> Inl e
      | Inr w \<Rightarrow>
          (case (case w of None \<Rightarrow> Inr []
                 | Some v \<Rightarrow> if truthy v then String_of v else Inr []) of
             Inl e \<Rightarrow> Inl e
           | Inr wd \<Rightarrow>
               (case member x (js ''hint'') of
                  Inl e \<Rightarrow> Inl e
                | Inr h \<Rightarrow>
                    (case (case h of None \<Rightarrow> Inr None
                           | Some v \<Rightarrow> if truthy v then map_sum id Some (String_of v) else Inr None) of
                       Inl e \<Rightarrow> Inl e
                     | Inr ht \<Rightarrow> Inr \<lparr>word = trim wd, hint_text = ht\<rparr>))))"

fun json_items :: "json list \<Rightarrow> upload_error + item list" where
  "json_items [] = Inr []"
| "json_items (x # xs) =
     (case json_item x of
        Inl e \<Rightarrow> Inl e
      | Inr it \<Rightarrow> (case json_items xs of Inl e \<Rightarrow> Inl e | Inr its \<Rightarrow> Inr (it # its)))"

record upload_file =
  file_name :: jstring
  file_text :: jstring

definition ext_of :: "upload_file \<Rightarrow> jstring" where
  "ext_of f = toLowerCase (last (split_on (\<lambda>c. c = 46) (file_name f)))"

text \<open>
  The parsing part of the \<open>try\<close> block of \<open>onUpload\<close>. \<open>JSON.parse\<close> is the runtime's,
  given as \<open>jp\<close>: \<open>None\<close> when it throws a SyntaxError.
\<close>

definition parse_upload :: "(jstring \<Rightarrow> json option) \<Rightarrow> upload_file \<Rightarrow> upload_error + item list" where
  "parse_upload jp f =
     (let ext = ext_of f; txt = file_text f
      in if ext = js ''json'' then
           (case jp txt of
              None \<Rightarrow> Inl SyntaxError
            | Some (JArr xs) \<Rightarrow>
                (case json_items xs of
                   Inl e \<Rightarrow> Inl e
                 | Inr its \<Rightarrow> Inr (filter (\<lambda>x. length (word x) > 0) its))
            | Some _ \<Rightarrow> Inr [])
         else if ext = js ''csv'' then Inr (parseCSV txt)
         else Inr (parseTXT txt))"

text \<open>\<open>dedupe\<close>: the loop over \<open>arr\<close> with its set \<open>seen\<close> and its output \<open>out\<close>.\<close>

definition dedupe_step :: "jstring set \<times> item list \<Rightarrow> item \<Rightarrow> jstring set \<times> item list" where
  "dedupe_step st it =
     (let seen = fst st; out = snd st; key = normalizeWord (word it)
      in if key = [] then st
         else if key \<in> seen then st
         else (insert key seen, out @ [\<lparr>word = toUpperCase (word it), hint_text = hint_text it\<rparr>]))"

definition dedupe :: "item list \<Rightarrow> item list" where
  "dedupe arr = snd (foldl dedupe_step ({}, []) arr)"

text \<open>
  \<open>onUpload\<close>, with the handler of the file reader inlined. The result is the new state
  and what \<open>alert\<close> was called for, if it was. The two updates \<open>setItems\<close> and \<open>setIndex\<close>
  lead to one render.
\<close>

definition onUpload :: "(jstring \<Rightarrow> json option) \<Rightarrow> upload_file option \<Rightarrow> engine \<Rightarrow> engine \<times> upload_error option" where
  "onUpload jp fo s =
     (case fo of
        None \<Rightarrow> (s, None)
      | Some f \<Rightarrow>
          (case parse_upload jp f of
             Inl e \<Rightarrow> (s, Some e)
           | Inr parsed \<Rightarrow>
               if length parsed = 0 then (s, Some NoWords)
               else let unique = take 20 (dedupe parsed)
                    in (rerender s (s\<lparr>items := unique, store := Some unique, index := 0\<rparr>), None)))"

definition defaultSet :: "item list" where
  "defaultSet =
     [\<lparr>word = js ''DRAGON'', hint_text = Some (js ''mythical creature'')\<rparr>,
      \<lparr>word = js ''MOUSE'', hint_text = Some (js ''small animal'')\<rparr>,
      \<lparr>word = js ''FOREST'', hint_text = Some (js ''many trees'')\<rparr>,
      \<lparr>word = js ''FRIEND'', hint_text = Some (js ''buddy'')\<rparr>,
      \<lparr>word = js ''SING'', hint_text = Some (js ''make music with your voice'')\<rparr>]"

definition clearSet :: "engine \<Rightarrow> engine" where
  "clearSet s = rerender s (s\<lparr>store := None, items := defaultSet, index := 0\<rparr>)"

definition loadItems :: "item list option \<Rightarrow> item list" where
  "loadItems st = (case st of Some its \<Rightarrow> its | None \<Rightarrow> defaultSet)"

text \<open>
  The state of the first render, for a session store and a random source, and the state
  after its effect.
\<close>

definition mount :: "item list option \<Rightarrow> rng \<Rightarrow> engine" where
  "mount st g =
     \<lparr>items = loadItems st, index = 0, picked = [], shuffled = [], status = Idle,
      revealed = 0, store = st, rnd = g, drawn = 0\<rparr>"

definition startup :: "item list option \<Rightarrow> rng \<Rightarrow> engine" where
  "startup st g = effect (mount st g)"

section \<open>Notions the properties are stated with\<close>

text \<open>
  A pick is valid when the tile button does something: the engine is idle, the tile
  exists and is not empty, and a letter slot is still free.
\<close>

definition valid_pick :: "nat \<Rightarrow> engine \<Rightarrow> bool" where
  "valid_pick i s \<longleftrightarrow>
     status s = Idle \<and> i < length (shuffled s) \<and> shuffled s ! i \<noteq> []
     \<and> length (picked s) + revealed s < length (slots s)"

definition picks :: "nat list \<Rightarrow> engine \<Rightarrow> engine" where
  "picks is s = foldl (\<lambda>s i. pick i s) s is"

fun valid_picks :: "nat list \<Rightarrow> engine \<Rightarrow> bool" where
  "valid_picks [] s = True"
| "valid_picks (i # is) s = (valid_pick i s \<and> valid_picks is (pick i s))"

text \<open>
  The letters in play: the non-empty bank tiles together with the picked letters. The
  bookkeeping of \<open>picked\<close> is sound when its bank indices are distinct and each one
  refers to a bank position that is marked empty (and no picked letter is empty).
\<close>

definition nonempty_tiles :: "jstring list \<Rightarrow> jstring list" where
  "nonempty_tiles b = filter (\<lambda>c. c \<noteq> []) b"

definition tiles_mset :: "engine \<Rightarrow> jstring multiset" where
  "tiles_mset s = mset (nonempty_tiles (shuffled s)) + mset (map fst (picked s))"

definition picked_ok :: "engine \<Rightarrow> bool" where
  "picked_ok s \<longleftrightarrow>
     distinct (map snd (picked s))
     \<and> (\<forall>(c, i) \<in> set (picked s). c \<noteq> [] \<and> i < length (shuffled s) \<and> shuffled s ! i = [])"

text \<open>
  The deduplicator in the words of its specification: going through the items in their
  order, an item is kept when its key \<open>normalize(word)\<close> is not empty and no earlier item
  has the same key; a kept item has its word upper-cased and its hint as it was.
\<close>

definition key_of :: "item \<Rightarrow> jstring" where
  "key_of it = normalizeWord (word it)"

definition display_item :: "item \<Rightarrow> item" where
  "display_item it = \<lparr>word = toUpperCase (word it), hint_text = hint_text it\<rparr>"

definition dedupe_spec :: "item list \<Rightarrow> item list" where
  "dedupe_spec arr =
     map (\<lambda>k. display_item (arr ! k))
       (filter (\<lambda>k. key_of (arr ! k) \<noteq> [] \<and> (\<forall>j<k. key_of (arr ! j) \<noteq> key_of (arr ! k)))
          [0 ..< length arr])"

text \<open>
  Inputs of the concrete runs below: a fixed sequence of draws, a JSON parser that rejects
  everything, a word list whose only word has a hyphen, and a text of 25 lines, one
  letter from A to Y on each.
\<close>

definition rng_lin :: rng where
  "rng_lin k = 7 * k + 3"

definition no_json :: "jstring \<Rightarrow> json option" where
  "no_json t = None"

definition hyphen_set :: "item list" where
  "hyphen_set = [\<lparr>word = js ''A-B'', hint_text = None\<rparr>]"

definition letter_lines :: jstring where
  "letter_lines = concat (map (\<lambda>c. [c, 10]) [65 ..< 90])"

section \<open>Properties of the bank generator\<close>

lemma length_swap [simp]: "length (swap a i j) = length a"
  by (simp add: swap_def)

lemma mset_swap_model: "i < length a \<Longrightarrow> j < length a \<Longrightarrow> mset (swap a i j) = mset a"
  unfolding swap_def by (simp add: mset_swap)

lemma shuffle_loop_mset:
  "i < length a \<Longrightarrow> mset (fst (shuffle_loop g k i a)) = mset a"
proof (induction i arbitrary: k a)
  case 0
  then show ?case by simp
next
  case (Suc i)
  have "g k mod (Suc i + 1) < Suc i + 1"
    by (rule mod_less_divisor) simp
  then have j: "g k mod (Suc i + 1) < length a"
    using Suc.prems by linarith
  have "mset (swap a (Suc i) (g k mod (Suc i + 1))) = mset a"
    using Suc.prems j by (rule mset_swap_model)
  moreover have "i < length (swap a (Suc i) (g k mod (Suc i + 1)))"
    using Suc.prems by simp
  ultimately show ?case
    using Suc.IH by simp
qed

lemma shuffle_mset [simp]: "mset (fst (shuffle g k arr)) = mset arr"
proof (cases arr)
  case Nil
  then show ?thesis by (simp add: shuffle_def)
next
  case (Cons x xs)
  then show ?thesis by (simp add: shuffle_def shuffle_loop_mset)
qed

lemma shuffle_length [simp]: "length (fst (shuffle g k arr)) = length arr"
  using shuffle_mset [of g k arr] by (metis size_mset)

lemma shuffle_set [simp]: "set (fst (shuffle g k arr)) = set arr"
  using shuffle_mset [of g k arr] by (metis set_mset_mset)

lemma fill_bank_length: "length (fst (fill_bank g k sz base)) = max sz (length base)"
proof (induction g k sz base rule: fill_bank.induct)
  case (1 g k sz base)
  show ?case
  proof (cases "length base < sz")
    case True
    then show ?thesis using "1.IH" by (subst fill_bank.simps) simp
  next
    case False
    then show ?thesis by (subst fill_bank.simps) simp
  qed
qed

lemma fill_bank_mset: "mset base \<subseteq># mset (fst (fill_bank g k sz base))"
proof (induction g k sz base rule: fill_bank.induct)
  case (1 g k sz base)
  show ?case
  proof (cases "length base < sz")
    case True
    have "mset base \<subseteq># mset (base @ [[ALPHA ! (g k mod length ALPHA)]])" by simp
    also note "1.IH" [OF True]
    finally show ?thesis using True
      by (subst fill_bank.simps) simp
  next
    case False
    then show ?thesis by (subst fill_bank.simps) simp
  qed
qed

lemma fill_bank_nonempty:
  "[] \<notin> set base \<Longrightarrow> [] \<notin> set (fst (fill_bank g k sz base))"
proof (induction g k sz base rule: fill_bank.induct)
  case (1 g k sz base)
  show ?case
  proof (cases "length base < sz")
    case True
    then show ?thesis using "1.IH" [OF True] "1.prems"
      by (subst fill_bank.simps) simp
  next
    case False
    then show ?thesis using "1.prems" by (subst fill_bank.simps) simp
  qed
qed

lemma split_units_nonempty [simp]: "[] \<notin> set (split_units w)"
  by (auto simp: split_units_def)

lemma makeLetterBank_length:
  "length (fst (makeLetterBank g k nt)) = bank_size (split_units (toUpperCase nt))"
proof -
  let ?base = "split_units (toUpperCase nt)"
  have "bank_size ?base \<le> length (fst (fill_bank g k (bank_size ?base) ?base))"
    by (simp add: fill_bank_length)
  then show ?thesis
    by (simp add: makeLetterBank_def Let_def split_beta)
qed

lemma makeLetterBank_seed:
  assumes "length (split_units (toUpperCase nt)) \<le> 16"
  shows "mset (split_units (toUpperCase nt)) \<subseteq># mset (fst (makeLetterBank g k nt))"
proof -
  let ?base = "split_units (toUpperCase nt)"
  let ?sz = "bank_size ?base"
  let ?filled = "fst (fill_bank g k ?sz ?base)"
  have "length ?base \<le> ?sz" using assms by (simp add: bank_size_def)
  then have "length ?filled = ?sz" by (simp add: fill_bank_length)
  then have "fst (makeLetterBank g k nt) = fst (shuffle g (snd (fill_bank g k ?sz ?base)) ?filled)"
    by (simp add: makeLetterBank_def Let_def split_beta)
  then show ?thesis by (simp add: fill_bank_mset)
qed

lemma makeLetterBank_nonempty: "[] \<notin> set (fst (makeLetterBank g k nt))"
proof -
  let ?base = "split_units (toUpperCase nt)"
  have "[] \<notin> set (fst (fill_bank g k (bank_size ?base) ?base))"
    by (rule fill_bank_nonempty) simp
  then show ?thesis
    by (auto simp: makeLetterBank_def Let_def split_beta dest: in_set_takeD)
qed

lemma normalize_DRAGON: "normalizeWord (js ''DRAGON'') = js ''dragon''"
  by (simp add: normalizeWord_def js_def is_punct_def is_space_def toLowerCase_def in_repertoire_def lower_unit_def)

lemma upper_dragon: "toUpperCase (js ''dragon'') = js ''DRAGON''"
  by (simp add: js_def toUpperCase_def in_repertoire_def upper_unit_def)

text \<open>
  Claim C1, as the code has it. For every target and every random source, the bank
  \<open>makeLetterBank(normalize(target))\<close> has \<open>clamp(n + 6, 12, 16)\<close> tiles, where \<open>n\<close> is the
  length of the upper-cased normalised target (the array \<open>base\<close>), so between 12 and 16;
  and when \<open>n\<close> is at most 16 the bank contains every character of the upper-cased
  normalised target as a sub-multiset. A longer seed is cut by \<open>slice(0, size)\<close> after
  the shuffle.
\<close>

theorem bank_conservation:
  "length (fst (makeLetterBank g k (normalizeWord tgt)))
     = max 12 (min 16 (length (toUpperCase (normalizeWord tgt)) + 6))
   \<and> 12 \<le> length (fst (makeLetterBank g k (normalizeWord tgt)))
   \<and> length (fst (makeLetterBank g k (normalizeWord tgt))) \<le> 16
   \<and> (length (toUpperCase (normalizeWord tgt)) \<le> 16 \<longrightarrow>
        mset (split_units (toUpperCase (normalizeWord tgt)))
          \<subseteq># mset (fst (makeLetterBank g k (normalizeWord tgt))))"
  using makeLetterBank_seed [of "normalizeWord tgt" g k]
  by (simp add: makeLetterBank_length bank_size_def split_units_def)

text \<open>
  The default word has six letters; its bank contains them.
\<close>

theorem bank_conservation_witness:
  "length (toUpperCase (normalizeWord (js ''DRAGON''))) \<le> 16
   \<and> mset (split_units (toUpperCase (normalizeWord (js ''DRAGON''))))
        \<subseteq># mset (fst (makeLetterBank rng_lin 0 (normalizeWord (js ''DRAGON''))))"
proof -
  have h: "length (toUpperCase (normalizeWord (js ''DRAGON''))) \<le> 16"
    by (simp add: normalize_DRAGON upper_dragon) (simp add: js_def)
  show ?thesis
    using h bank_conservation [of rng_lin 0 "js ''DRAGON''"] by blast
qed

text \<open>
  The claim as written fails on a target of more than 16 letters, where four of the
  twenty seed letters are cut off; and its size formula, on the length of the normalised
  target before upper-casing, fails where upper-casing lengthens the string.
\<close>

theorem bank_conservation_counterexample:
  "\<not> mset (split_units (toUpperCase (normalizeWord (js ''INTERNATIONALIZATION''))))
       \<subseteq># mset (fst (makeLetterBank rng_lin 0 (normalizeWord (js ''INTERNATIONALIZATION''))))
   \<and> length (fst (makeLetterBank rng_lin 0 (normalizeWord (js ''Stra'' @ 0xDF # js ''e''))))
        \<noteq> max 12 (min 16 (length (normalizeWord (js ''Stra'' @ 0xDF # js ''e'')) + 6))"
proof
  let ?seed = "split_units (toUpperCase (normalizeWord (js ''INTERNATIONALIZATION'')))"
  let ?bank = "fst (makeLetterBank rng_lin 0 (normalizeWord (js ''INTERNATIONALIZATION'')))"
  have n: "normalizeWord (js ''INTERNATIONALIZATION'') = js ''internationalization''"
    by (simp add: normalizeWord_def js_def is_punct_def is_space_def toLowerCase_def in_repertoire_def lower_unit_def)
  have seed: "length ?seed = 20"
    by (simp add: n) (simp add: js_def toUpperCase_def in_repertoire_def upper_unit_def split_units_def)
  have bank: "length ?bank = 16"
    by (simp add: makeLetterBank_length bank_size_def seed)
  show "\<not> mset ?seed \<subseteq># mset ?bank"
  proof
    assume "mset ?seed \<subseteq># mset ?bank"
    then have "size (mset ?seed) \<le> size (mset ?bank)"
      by (rule size_mset_mono)
    then show False
      using seed bank by simp
  qed
next
  let ?w = "js ''Stra'' @ 0xDF # js ''e''"
  have n: "normalizeWord ?w = js ''stra'' @ 0xDF # js ''e''"
    by (simp add: normalizeWord_def js_def is_punct_def is_space_def toLowerCase_def in_repertoire_def lower_unit_def)
  have u: "length (split_units (toUpperCase (normalizeWord ?w))) = 7"
    by (simp add: n) (simp add: js_def toUpperCase_def in_repertoire_def upper_unit_def split_units_def)
  have "length (fst (makeLetterBank rng_lin 0 (normalizeWord ?w))) = 13"
    by (simp add: makeLetterBank_length bank_size_def u)
  moreover have "max 12 (min 16 (length (normalizeWord ?w) + 6)) = (12::nat)"
    by (simp add: n) (simp add: js_def)
  ultimately show "length (fst (makeLetterBank rng_lin 0 (normalizeWord ?w)))
      \<noteq> max 12 (min 16 (length (normalizeWord ?w) + 6))"
    by simp
qed

section \<open>Basic facts about the engine operations\<close>

lemma pick_valid:
  "valid_pick i s \<Longrightarrow>
     pick i s = s\<lparr>picked := picked s @ [(shuffled s ! i, i)], shuffled := (shuffled s)[i := []]\<rparr>"
  by (simp add: valid_pick_def pick_def onTileClick_def)

lemma pick_invalid: "\<not> valid_pick i s \<Longrightarrow> pick i s = s"
  by (auto simp: valid_pick_def pick_def onTileClick_def)

lemma removeLast_pick: "valid_pick i s \<Longrightarrow> removeLast (pick i s) = s"
  by (simp add: pick_valid) (simp add: removeLast_def valid_pick_def)

lemma picks_Cons: "picks (i # is) s = picks is (pick i s)"
  by (simp add: picks_def)

lemma pick_remove_all:
  "valid_picks is s \<Longrightarrow> (removeLast ^^ length is) (picks is s) = s"
proof (induction "is" arbitrary: s)
  case Nil
  then show ?case by (simp add: picks_def)
next
  case (Cons i "is")
  have "(removeLast ^^ length (i # is)) (picks (i # is) s)
          = removeLast ((removeLast ^^ length is) (picks is (pick i s)))"
    by (simp add: picks_Cons)
  also have "\<dots> = removeLast (pick i s)"
    using Cons by simp
  also have "\<dots> = s"
    using Cons.prems by (simp add: removeLast_pick)
  finally show ?case .
qed

text \<open>
  Claim C7. \<open>pick(tileIndex)\<close> changes nothing whenever the bank position is empty (or
  there is no such tile), or the filled letter slots \<open>picked.length + revealed\<close> have
  reached the letter-slot count, or the engine is not idle. The model is total: no
  branch of \<open>pick\<close> raises.
\<close>

theorem pick_noop:
  "(i < length (shuffled s) \<longrightarrow> shuffled s ! i = [])
     \<or> length (picked s) + revealed s \<ge> length (slots s) \<or> status s \<noteq> Idle
   \<Longrightarrow> pick i s = s"
  by (auto simp: pick_def onTileClick_def)

lemma status_pick [simp]: "status (pick i s) = status s"
  by (simp add: pick_def onTileClick_def Let_def)

lemma status_removeLast [simp]: "status (removeLast s) = status s"
  by (simp add: removeLast_def Let_def)

lemma status_hint [simp]: "status (hint s) = status s"
  by (simp add: hint_def)

lemma status_reset [simp]: "status (reset s) = Idle"
  by (simp add: reset_def split_beta)

lemma run_Nil [simp]: "run [] s = s"
  by (simp add: run_def)

lemma run_Cons [simp]: "run (e # evs) s = run evs (fire e s)"
  by (simp add: run_def)

lemma run_append: "run (evs @ evs') s = run evs' (run evs s)"
  by (simp add: run_def)

lemma status_run:
  "set evs \<subseteq> range Pick \<union> {RemoveLast, Hint} \<Longrightarrow> status (run evs s) = status s"
proof (induction evs arbitrary: s)
  case Nil
  then show ?case by simp
next
  case (Cons e evs)
  then have "status (fire e s) = status s"
    by auto
  then show ?case using Cons by simp
qed

lemma current_empty: "items s = [] \<Longrightarrow> current s = None"
  by (simp add: current_def)

lemma target_empty: "items s = [] \<Longrightarrow> target s = []"
  by (simp add: target_def current_empty trim_def)

lemma slots_empty: "target s = [] \<Longrightarrow> slots s = []"
  by (simp add: slots_def displayWord_def displayWord_of_def)

lemma inert_ops:
  assumes "items s = []"
  shows "pick i s = s" "hint s = s" "check s = s" "picked s = [] \<Longrightarrow> removeLast s = s"
  using assms
  by (simp_all add: pick_def onTileClick_def hint_def check_def removeLast_def
      slots_empty target_empty current_empty)

section \<open>The default puzzle, evaluated\<close>

text \<open>
  The first default word with the draws \<open>rng_lin\<close>: the bank and its shuffles, step by step.
\<close>

lemma list_update_Cons_pos: "0 < i \<Longrightarrow> (x # xs)[i := y] = x # xs[i - 1 := y]"
  by (cases i) simp_all

lemma shuffle_loop_pos:
  "0 < i \<Longrightarrow> shuffle_loop g k i a = shuffle_loop g (Suc k) (i - 1) (swap a i (g k mod (i + 1)))"
  by (cases i) simp_all

lemma mod_two_Suc: "n mod Suc (Suc 0) = n mod 2"
  by (simp add: numeral_2_eq_2)

lemma length_ALPHA: "length ALPHA = 59"
  by (simp add: ALPHA_def del: upt_rec_numeral)

lemma ALPHA_drawn:
  "ALPHA ! 3 = 1075" "ALPHA ! 10 = 1081" "ALPHA ! 17 = 1088" "ALPHA ! 24 = 1095"
  "ALPHA ! 31 = 1102" "ALPHA ! 38 = 70"
  by (simp_all add: ALPHA_def)

lemmas eval_simps = shuffle_def shuffle_loop_pos swap_def rng_lin_def list_update_Cons_pos mod_two_Suc

lemma seed_dragon:
  "split_units (toUpperCase (js ''dragon'')) = map (\<lambda>c. [c]) [68, 82, 65, 71, 79, 78]"
  by (simp add: upper_dragon) (simp add: js_def split_units_def)

lemma fill_dragon:
  "fill_bank rng_lin 0 12 (map (\<lambda>c. [c]) [68, 82, 65, 71, 79, 78]) =
     (map (\<lambda>c. [c]) [68, 82, 65, 71, 79, 78, 1075, 1081, 1088, 1095, 1102, 70], 6)"
  by (simp add: fill_bank.simps rng_lin_def length_ALPHA ALPHA_drawn)

lemma shuffle_dragon:
  "shuffle rng_lin 6 (map (\<lambda>c. [c]) [68, 82, 65, 71, 79, 78, 1075, 1081, 1088, 1095, 1102, 70 :: nat]) =
     (map (\<lambda>c. [c]) [65, 78, 68, 1081, 79, 1075, 1102, 82, 71, 70, 1088, 1095], 17)"
  by (simp add: eval_simps)

lemma bank_dragon:
  "makeLetterBank rng_lin 0 (js ''dragon'') =
     (map (\<lambda>c. [c]) [65, 78, 68, 1081, 79, 1075, 1102, 82, 71, 70, 1088, 1095], 17)"
proof -
  have "bank_size (map (\<lambda>c. [c]) [68, 82, 65, 71, 79, 78]) = 12"
    by (simp add: bank_size_def)
  then show ?thesis
    using fill_dragon shuffle_dragon
    by (simp add: makeLetterBank_def seed_dragon)
qed

lemma shuffle_bank_dragon:
  "shuffle rng_lin 17 (map (\<lambda>c. [c]) [65, 78, 68, 1081, 79, 1075, 1102, 82, 71, 70, 1088, 1095 :: nat]) =
     (map (\<lambda>c. [c]) [79, 65, 82, 1075, 78, 1095, 1081, 70, 1088, 1102, 71, 68], 28)"
  by (simp add: eval_simps)

lemma trim_DRAGON: "trim (js ''DRAGON'') = js ''DRAGON''"
  by (simp add: trim_def js_def is_space_def)

lemma startup_default:
  "startup None rng_lin =
     \<lparr>items = defaultSet, index = 0, picked = [],
      shuffled = map (\<lambda>c. [c]) [79, 65, 82, 1075, 78, 1095, 1081, 70, 1088, 1102, 71, 68],
      status = Idle, revealed = 0, store = None, rnd = rng_lin, drawn = 28\<rparr>"
proof -
  let ?s = "\<lparr>items = loadItems None, index = 0, picked = [], shuffled = [], status = Idle,
             revealed = 0, store = None, rnd = rng_lin, drawn = 0\<rparr>"
  have c: "current ?s = Some \<lparr>word = js ''DRAGON'', hint_text = Some (js ''mythical creature'')\<rparr>"
    by (simp add: current_def loadItems_def defaultSet_def)
  have t: "normalizedTarget ?s = js ''dragon''"
    by (simp add: normalizedTarget_def target_def c trim_DRAGON normalize_DRAGON)
  show ?thesis
    using bank_dragon shuffle_bank_dragon
    by (simp add: startup_def mount_def effect_def c t) (simp add: loadItems_def)
qed

section \<open>Slots and the verdict\<close>

lemma map_isLetter_displayWord_of: "map isLetter (displayWord_of t r) = map is_letter t"
proof -
  have "map isLetter (displayWord_of t r) = map (is_letter \<circ> snd) (enumerate 0 t)"
    by (simp add: displayWord_of_def comp_def split_beta)
  also have "\<dots> = map is_letter (map snd (enumerate 0 t))"
    by (simp only: map_map)
  also have "\<dots> = map is_letter t"
    by (simp only: map_snd_enumerate)
  finally show ?thesis .
qed

lemma length_slots: "length (slots s) = length (filter is_letter (target s))"
proof -
  have "length (filter isLetter (displayWord s)) = length (filter id (map isLetter (displayWord s)))"
    by (simp add: filter_map comp_def)
  then show ?thesis
    by (simp add: slots_def displayWord_def map_isLetter_displayWord_of filter_map comp_def)
qed

lemma target_startup_default: "target (startup None rng_lin) = js ''DRAGON''"
  by (simp add: startup_default target_def current_def defaultSet_def trim_DRAGON)

lemma letters_DRAGON: "filter is_letter (js ''DRAGON'') = js ''DRAGON''"
  by (simp add: js_def is_letter_def)

lemma displayWord_DRAGON:
  "displayWord_of (js ''DRAGON'') 0 =
     map (\<lambda>c. \<lparr>char = [c], isLetter = True, slot_revealed = False\<rparr>) (js ''DRAGON'')"
  by (simp add: displayWord_of_def js_def is_letter_def)

lemma current_target: "target s \<noteq> [] \<Longrightarrow> current s \<noteq> None"
  by (cases "current s") (simp_all add: target_def trim_def)

lemma check_status:
  "current s \<noteq> None \<Longrightarrow>
     check s = s\<lparr>status := (if normalizeWord (rebuildWithPunctuation (picked s) (displayWord s) (revealed s))
                                  = normalizedTarget s then Correct else Wrong)\<rparr>"
  by (auto simp: check_def Let_def)

section \<open>Conservation of tiles\<close>

lemma tiles_take:
  "i < length b \<Longrightarrow> b ! i \<noteq> [] \<Longrightarrow>
     add_mset (b ! i) (mset (nonempty_tiles (b[i := []]))) = mset (nonempty_tiles b)"
  unfolding nonempty_tiles_def
  by (induction b arbitrary: i) (auto split: nat.splits)

lemma tiles_put:
  "i < length b \<Longrightarrow> b ! i = [] \<Longrightarrow> c \<noteq> [] \<Longrightarrow>
     mset (nonempty_tiles (b[i := c])) = add_mset c (mset (nonempty_tiles b))"
  unfolding nonempty_tiles_def
  by (induction b arbitrary: i) (auto split: nat.splits)

lemma inv_pick:
  assumes "picked_ok s"
  shows "picked_ok (pick i s) \<and> tiles_mset (pick i s) = tiles_mset s"
proof (cases "valid_pick i s")
  case False
  then show ?thesis using assms by (simp add: pick_invalid)
next
  case True
  then have i: "i < length (shuffled s)" and c: "shuffled s ! i \<noteq> []"
    by (simp_all add: valid_pick_def)
  have fresh: "i \<notin> snd ` set (picked s)"
    using assms c by (auto simp: picked_ok_def)
  have "picked_ok (pick i s)"
    using assms i c fresh
    by (auto simp: pick_valid [OF True] picked_ok_def nth_list_update)
  moreover have "tiles_mset (pick i s) = tiles_mset s"
    using tiles_take [OF i c]
    by (simp add: pick_valid [OF True] tiles_mset_def)
  ultimately show ?thesis ..
qed

lemma inv_removeLast:
  assumes "picked_ok s"
  shows "picked_ok (removeLast s) \<and> tiles_mset (removeLast s) = tiles_mset s"
proof (cases "picked s = [] \<or> status s \<noteq> Idle")
  case True
  then show ?thesis using assms by (auto simp: removeLast_def)
next
  case False
  then obtain ps c i where ps: "picked s = ps @ [(c, i)]"
    by (cases "picked s" rule: rev_cases) auto
  have c: "c \<noteq> []" and i: "i < length (shuffled s)" and e: "shuffled s ! i = []"
    and fresh: "\<forall>a. (a, i) \<notin> set ps" and d: "distinct (map snd ps)"
    using assms ps by (force simp: picked_ok_def)+
  have r: "removeLast s = s\<lparr>picked := ps, shuffled := (shuffled s)[i := c]\<rparr>"
    using False ps by (simp add: removeLast_def)
  have "picked_ok (removeLast s)"
    using assms ps fresh d
    by (auto simp: r picked_ok_def nth_list_update)
  moreover have "tiles_mset (removeLast s) = tiles_mset s"
    using tiles_put [OF i e c] by (simp add: r tiles_mset_def ps)
  ultimately show ?thesis ..
qed

lemma inv_hint: "picked_ok (hint s) = picked_ok s \<and> tiles_mset (hint s) = tiles_mset s"
  by (simp add: hint_def picked_ok_def tiles_mset_def)

lemma inv_check: "picked_ok (check s) = picked_ok s \<and> tiles_mset (check s) = tiles_mset s"
  by (cases "current s") (simp_all add: check_def picked_ok_def tiles_mset_def Let_def)

lemma nonempty_tiles_id: "[] \<notin> set b \<Longrightarrow> nonempty_tiles b = b"
  unfolding nonempty_tiles_def by (induction b) auto

lemma reset_fields:
  "picked (reset s) = []"
  "shuffled (reset s) = fst (shuffle (rnd s) (drawn s) (filter (\<lambda>c. c \<noteq> []) (shuffled s)))"
  by (simp_all add: reset_def split_beta)

lemma inv_reset:
  "picked_ok (reset s) \<and> tiles_mset (reset s) = mset (nonempty_tiles (shuffled s))"
proof -
  have "[] \<notin> set (shuffled (reset s))"
    by (simp add: reset_fields)
  then have "nonempty_tiles (shuffled (reset s)) = shuffled (reset s)"
    by (rule nonempty_tiles_id)
  then show ?thesis
    by (simp add: picked_ok_def tiles_mset_def reset_fields nonempty_tiles_def)
qed

lemma inv_fire:
  assumes "picked_ok s" and "e \<in> range Pick \<union> {RemoveLast, Hint, Check, Reset}"
  shows "picked_ok (fire e s) \<and> tiles_mset (fire e s) \<subseteq># tiles_mset s
         \<and> (e \<noteq> Reset \<longrightarrow> tiles_mset (fire e s) = tiles_mset s)"
proof (cases e)
  case (Pick i)
  then show ?thesis using inv_pick [OF assms(1), of i] by simp
next
  case RemoveLast
  then show ?thesis using inv_removeLast [OF assms(1)] by simp
next
  case Hint
  then show ?thesis using assms(1) inv_hint [of s] by simp
next
  case Check
  then show ?thesis using assms(1) inv_check [of s] by simp
next
  case Reset
  then show ?thesis using inv_reset [of s] by (simp add: tiles_mset_def)
qed (use assms(2) in auto)

lemma inv_run:
  assumes "picked_ok s" and "set evs \<subseteq> range Pick \<union> {RemoveLast, Hint, Check, Reset}"
  shows "picked_ok (run evs s) \<and> tiles_mset (run evs s) \<subseteq># tiles_mset s
         \<and> (Reset \<notin> set evs \<longrightarrow> tiles_mset (run evs s) = tiles_mset s)"
  using assms
proof (induction evs arbitrary: s)
  case Nil
  then show ?case by simp
next
  case (Cons e evs)
  have e: "e \<in> range Pick \<union> {RemoveLast, Hint, Check, Reset}"
    and evs: "set evs \<subseteq> range Pick \<union> {RemoveLast, Hint, Check, Reset}"
    using Cons.prems(2) by auto
  note step = inv_fire [OF Cons.prems(1) e]
  note rest = Cons.IH [OF conjunct1 [OF step] evs]
  have "tiles_mset (run evs (fire e s)) \<subseteq># tiles_mset s"
    using rest step by (meson subset_mset.order_trans)
  moreover have "Reset \<notin> set (e # evs) \<longrightarrow> tiles_mset (run evs (fire e s)) = tiles_mset s"
    using rest step by auto
  ultimately show ?case using rest by simp
qed

lemma effect_fields:
  assumes "current s \<noteq> None"
  shows "picked (effect s) = []" "status (effect s) = Idle" "revealed (effect s) = 0"
    "items (effect s) = items s" "index (effect s) = index s" "store (effect s) = store s"
    "shuffled (effect s) =
       fst (shuffle (rnd s) (snd (makeLetterBank (rnd s) (drawn s) (normalizedTarget s)))
              (fst (makeLetterBank (rnd s) (drawn s) (normalizedTarget s))))"
  using assms by (auto simp: effect_def split_beta)

lemma effect_inv:
  assumes "current s \<noteq> None"
  shows "picked_ok (effect s)" "tiles_mset (effect s) = mset (shuffled (effect s))"
proof -
  have "[] \<notin> set (shuffled (effect s))"
    by (simp add: effect_fields [OF assms] makeLetterBank_nonempty)
  then have "nonempty_tiles (shuffled (effect s)) = shuffled (effect s)"
    by (rule nonempty_tiles_id)
  then show "tiles_mset (effect s) = mset (shuffled (effect s))"
    by (simp add: tiles_mset_def effect_fields [OF assms])
  show "picked_ok (effect s)"
    by (simp add: picked_ok_def effect_fields [OF assms])
qed

text \<open>
  Claim C4, as the code has it. In every state reached from a puzzle initialisation by
  \<open>pick\<close>, \<open>removeLast\<close>, \<open>hint\<close>, \<open>check\<close> and \<open>reset\<close>, the bank indices on the picked stack
  are distinct and each refers to a bank position marked empty; the non-empty tiles
  together with the picked letters are a sub-multiset of the generated bank, and they
  are the whole generated bank as long as no \<open>reset\<close> occurred (a \<open>reset\<close> keeps the
  non-empty tiles and drops the picked letters).
\<close>

theorem tile_conservation:
  assumes "current s \<noteq> None"
    and "set evs \<subseteq> range Pick \<union> {RemoveLast, Hint, Check, Reset}"
  shows "picked_ok (run evs (effect s))
       \<and> tiles_mset (run evs (effect s)) \<subseteq># mset (shuffled (effect s))
       \<and> (Reset \<notin> set evs \<longrightarrow> tiles_mset (run evs (effect s)) = mset (shuffled (effect s)))"
  using inv_run [OF effect_inv(1) [OF assms(1)] assms(2)]
  by (simp add: effect_inv(2) [OF assms(1)])

lemma startup_mount: "startup st g = effect (mount st g)"
  by (simp add: startup_def)

lemma current_mount_default: "current (mount None rng_lin) \<noteq> None"
  by (simp add: mount_def current_def loadItems_def defaultSet_def)

lemma pick_11:
  "pick 11 (startup None rng_lin) =
     (startup None rng_lin)\<lparr>picked := [([68], 11)],
        shuffled := map (\<lambda>c. [c]) [79, 65, 82, 1075, 78, 1095, 1081, 70, 1088, 1102, 71] @ [[]]\<rparr>"
proof -
  have "valid_pick 11 (startup None rng_lin)"
    by (simp add: valid_pick_def length_slots target_startup_default letters_DRAGON)
       (simp add: startup_default js_def)
  then show ?thesis
    by (simp add: pick_valid) (simp add: startup_default)
qed

text \<open>
  A run on the default puzzle without \<open>reset\<close>.
\<close>

theorem tile_conservation_witness:
  "current (mount None rng_lin) \<noteq> None
   \<and> set [Pick 11, Pick 2, RemoveLast, Hint, Check] \<subseteq> range Pick \<union> {RemoveLast, Hint, Check, Reset}
   \<and> picked_ok (run [Pick 11, Pick 2, RemoveLast, Hint, Check] (effect (mount None rng_lin)))
   \<and> tiles_mset (run [Pick 11, Pick 2, RemoveLast, Hint, Check] (effect (mount None rng_lin)))
        = mset (shuffled (effect (mount None rng_lin)))"
proof -
  have h: "set [Pick 11, Pick 2, RemoveLast, Hint, Check] \<subseteq> range Pick \<union> {RemoveLast, Hint, Check, Reset}"
    by auto
  have r: "Reset \<notin> set [Pick 11, Pick 2, RemoveLast, Hint, Check]"
    by simp
  show ?thesis
    using tile_conservation [OF current_mount_default h] r current_mount_default h by blast
qed

lemma shuffle_after_pick:
  "shuffle rng_lin 28 (map (\<lambda>c. [c]) [79, 65, 82, 1075, 78, 1095, 1081, 70, 1088, 1102, 71 :: nat] @ [[]]) =
     ([[79], [82], [1095], [71], [1081], [65], [], [1102], [78], [1075], [1088], [70]], 39)"
  by (simp add: eval_simps)

text \<open>
  The claim as written fails after \<open>reset\<close>, which drops the picked letter, and after a
  reshuffle of the bank, which moves the empty marker away from the recorded index.
\<close>

theorem tile_conservation_counterexample:
  "tiles_mset (run [Pick 11, Reset] (startup None rng_lin)) \<noteq> mset (shuffled (startup None rng_lin))
   \<and> \<not> picked_ok (run [Pick 11, ShuffleBank] (startup None rng_lin))"
proof
  have "tiles_mset (run [Pick 11, Reset] (startup None rng_lin))
          = mset (nonempty_tiles (shuffled (pick 11 (startup None rng_lin))))"
    by (simp add: inv_reset)
  then have "size (tiles_mset (run [Pick 11, Reset] (startup None rng_lin))) = 11"
    by (simp add: pick_11 nonempty_tiles_def)
  moreover have "size (mset (shuffled (startup None rng_lin))) = 12"
    by (simp add: startup_default)
  ultimately show "tiles_mset (run [Pick 11, Reset] (startup None rng_lin))
      \<noteq> mset (shuffled (startup None rng_lin))"
    by auto
next
  have "shuffleBank (pick 11 (startup None rng_lin)) =
          (startup None rng_lin)\<lparr>picked := [([68], 11)],
             shuffled := [[79], [82], [1095], [71], [1081], [65], [], [1102], [78], [1075], [1088], [70]],
             drawn := 39\<rparr>"
    using shuffle_after_pick
    by (simp add: shuffleBank_def pick_11) (simp add: startup_default)
  then show "\<not> picked_ok (run [Pick 11, ShuffleBank] (startup None rng_lin))"
    by (simp add: picked_ok_def)
qed

section \<open>Picks, removals and the status\<close>

lemma check_startup_default:
  "check (startup None rng_lin) = (startup None rng_lin)\<lparr>status := Wrong\<rparr>"
proof -
  let ?s = "startup None rng_lin"
  have c: "current ?s \<noteq> None"
    by (rule current_target) (simp add: target_startup_default js_def)
  have d: "displayWord ?s = displayWord_of (js ''DRAGON'') 0"
    by (simp add: displayWord_def target_startup_default) (simp add: startup_default)
  have "rebuildWithPunctuation (picked ?s) (displayWord ?s) (revealed ?s) = []"
    by (simp add: d displayWord_DRAGON) (simp add: startup_default rebuildWithPunctuation_def js_def)
  moreover have "normalizedTarget ?s = js ''dragon''"
    by (simp add: normalizedTarget_def target_startup_default normalize_DRAGON)
  moreover have "normalizeWord [] = []"
    by (simp add: normalizeWord_def toLowerCase_def in_repertoire_def)
  ultimately show ?thesis
    by (simp add: check_status [OF c]) (simp add: js_def)
qed

text \<open>
  The hypothesis of C7 holds in the state after checking the untouched default puzzle.
\<close>

theorem pick_noop_witness:
  "status (check (startup None rng_lin)) \<noteq> Idle
   \<and> pick 0 (check (startup None rng_lin)) = check (startup None rng_lin)"
proof -
  have h: "status (check (startup None rng_lin)) \<noteq> Idle"
    by (simp add: check_startup_default)
  show ?thesis
    using h pick_noop [of 0 "check (startup None rng_lin)"] by blast
qed

text \<open>
  Claim C9, as the code has it. From any state, valid picks followed by as many
  \<open>removeLast\<close> calls lead back to the very same state: the bank has its contents of before
  the picks, and the picked stack is what it was before them (so it is empty when it
  was empty before).
\<close>

theorem pick_remove_inverse:
  "valid_picks is s \<Longrightarrow>
     (removeLast ^^ length is) (picks is s) = s
     \<and> shuffled ((removeLast ^^ length is) (picks is s)) = shuffled s
     \<and> picked ((removeLast ^^ length is) (picks is s)) = picked s"
  by (simp add: pick_remove_all)

lemma valid_pick_2:
  "valid_pick 2 (pick 11 (startup None rng_lin))"
proof -
  have "length (slots (pick 11 (startup None rng_lin))) = 6"
    by (simp add: length_slots pick_11)
       (simp add: startup_default target_def current_def defaultSet_def trim_DRAGON letters_DRAGON,
        simp add: js_def)
  then show ?thesis
    by (simp add: valid_pick_def pick_11) (simp add: startup_default)
qed

text \<open>
  Two valid picks on the default puzzle and two removals.
\<close>

theorem pick_remove_inverse_witness:
  "valid_picks [11, 2] (startup None rng_lin)
   \<and> (removeLast ^^ length [11, 2 :: nat]) (picks [11, 2] (startup None rng_lin)) = startup None rng_lin"
proof -
  have "valid_pick 11 (startup None rng_lin)"
    by (simp add: valid_pick_def length_slots target_startup_default letters_DRAGON)
       (simp add: startup_default js_def)
  then have h: "valid_picks [11, 2] (startup None rng_lin)"
    using valid_pick_2 by simp
  show ?thesis
    using h pick_remove_inverse [OF h] by blast
qed

text \<open>
  The claim as written promises an empty stack from every idle state. After one pick the
  engine is idle with one letter on the stack; a further valid pick and one removal
  restore the bank, and the stack is not empty.
\<close>

theorem pick_remove_inverse_counterexample:
  "status (pick 11 (startup None rng_lin)) = Idle
   \<and> valid_picks [2] (pick 11 (startup None rng_lin))
   \<and> shuffled ((removeLast ^^ length [2 :: nat]) (picks [2] (pick 11 (startup None rng_lin))))
        = shuffled (pick 11 (startup None rng_lin))
   \<and> picked ((removeLast ^^ length [2 :: nat]) (picks [2] (pick 11 (startup None rng_lin)))) \<noteq> []"
proof -
  have h: "valid_picks [2] (pick 11 (startup None rng_lin))"
    using valid_pick_2 by simp
  have "(removeLast ^^ length [2 :: nat]) (picks [2] (pick 11 (startup None rng_lin)))
          = pick 11 (startup None rng_lin)"
    by (rule pick_remove_all [OF h])
  moreover have "picked (pick 11 (startup None rng_lin)) \<noteq> []"
    by (simp add: pick_11)
  moreover have "status (pick 11 (startup None rng_lin)) = Idle"
    by (simp add: startup_default)
  ultimately show ?thesis
    using h by simp
qed

text \<open>
  What the status guards of the handlers give. In a state that is not idle, \<open>pick\<close> and
  \<open>removeLast\<close> change nothing; \<open>hint\<close> never changes the status; so no sequence of
  \<open>pick\<close>, \<open>removeLast\<close> and \<open>hint\<close> calls changes the status. \<open>check\<close> has no such guard:
  whenever there is a current item it sets the status to the verdict on the current
  picks and revealed count. \<open>reset\<close> returns to idle.
\<close>

lemma locked_operations:
  "(status s \<noteq> Idle \<longrightarrow> pick i s = s \<and> removeLast s = s)
   \<and> status (hint s) = status s
   \<and> (set evs \<subseteq> range Pick \<union> {RemoveLast, Hint} \<longrightarrow> status (run evs s) = status s)
   \<and> (current s \<noteq> None \<longrightarrow>
        status (check s) =
          (if normalizeWord (rebuildWithPunctuation (picked s) (displayWord s) (revealed s))
                = normalizedTarget s
           then Correct else Wrong))
   \<and> status (reset s) = Idle"
proof -
  have "status s \<noteq> Idle \<longrightarrow> pick i s = s \<and> removeLast s = s"
    by (simp add: pick_def onTileClick_def removeLast_def)
  moreover have "current s \<noteq> None \<longrightarrow>
        status (check s) =
          (if normalizeWord (rebuildWithPunctuation (picked s) (displayWord s) (revealed s))
                = normalizedTarget s
           then Correct else Wrong)"
    by (simp add: check_status)
  ultimately show ?thesis
    by (simp add: status_run)
qed

lemma slots_DRAGON: "target s = js ''DRAGON'' \<Longrightarrow> length (slots s) = 6"
  by (simp add: length_slots letters_DRAGON) (simp add: js_def)

lemma target_upd [simp]:
  "target (s\<lparr>revealed := r\<rparr>) = target s"
  "target (s\<lparr>status := st\<rparr>) = target s"
  "target (s\<lparr>picked := p\<rparr>) = target s"
  "target (s\<lparr>shuffled := b\<rparr>) = target s"
  by (simp_all add: target_def current_def)

lemma hint_DRAGON:
  "target s = js ''DRAGON'' \<Longrightarrow> revealed s < 6 \<Longrightarrow> hint s = s\<lparr>revealed := revealed s + 1\<rparr>"
  by (simp add: hint_def slots_DRAGON)

lemma six_hints:
  assumes "target s = js ''DRAGON''" and "revealed s = 0"
  shows "run [Hint, Hint, Hint, Hint, Hint, Hint] s = s\<lparr>revealed := 6\<rparr>"
  using assms by (simp add: hint_DRAGON)

lemma displayWord_DRAGON_all:
  "displayWord_of (js ''DRAGON'') 6 =
     map (\<lambda>c. \<lparr>char = [c], isLetter = True, slot_revealed = True\<rparr>) (js ''DRAGON'')"
  by (simp add: displayWord_of_def js_def is_letter_def)

text \<open>
  On the default puzzle a check of the empty attempt gives Wrong; six hints and a second
  check, with no \<open>next\<close> or \<open>reset\<close> in between, give Correct.
\<close>

lemma check_after_hints:
  "status (run [Check] (startup None rng_lin)) = Wrong
   \<and> status (run [Hint, Hint, Hint, Hint, Hint, Hint, Check] (run [Check] (startup None rng_lin)))
        = Correct"
proof -
  let ?s = "(startup None rng_lin)\<lparr>status := Wrong\<rparr>"
  let ?r = "?s\<lparr>revealed := 6\<rparr>"
  have t: "target ?s = js ''DRAGON''"
    by (simp add: target_startup_default)
  have r: "revealed ?s = 0"
    by (simp add: startup_default)
  have h: "run [Hint, Hint, Hint, Hint, Hint, Hint] ?s = ?r"
    by (rule six_hints [OF t r])
  have c: "current ?r \<noteq> None"
    by (rule current_target) (simp add: target_startup_default js_def)
  have "rebuildWithPunctuation (picked ?r) (displayWord ?r) (revealed ?r) = js ''DRAGON''"
    by (simp add: displayWord_def target_startup_default displayWord_DRAGON_all)
       (simp add: rebuildWithPunctuation_def js_def)
  moreover have "normalizedTarget ?r = js ''dragon''"
    by (simp add: normalizedTarget_def target_startup_default normalize_DRAGON)
  ultimately have "status (check ?r) = Correct"
    by (simp add: check_status [OF c] normalize_DRAGON)
  moreover have "run [Hint, Hint, Hint, Hint, Hint, Hint, Check] ?s = check ?r"
    using h by (simp add: run_def)
  ultimately show ?thesis
    by (simp add: check_startup_default)
qed

section \<open>The empty word list\<close>

lemma startup_empty: "startup (Some []) g = mount (Some []) g"
  by (simp add: startup_mount effect_def current_def mount_def loadItems_def)

lemma inert_run:
  assumes "items s = []" and "picked s = []"
    and "set evs \<subseteq> range Pick \<union> {RemoveLast, Hint, Check}"
  shows "run evs s = s"
  using assms(3)
proof (induction evs)
  case Nil
  then show ?case by simp
next
  case (Cons e evs)
  then have "fire e s = s"
    using inert_ops [OF assms(1)] assms(2) by auto
  then show ?case using Cons by simp
qed

text \<open>
  Claim C10, as the code has it. With an empty word list the target is empty, there is no
  letter slot, and \<open>pick\<close>, \<open>hint\<close> and \<open>check\<close> change nothing; \<open>removeLast\<close> changes nothing
  when the picked stack is empty. At startup from a session store that holds the empty
  list, the stack is empty and the status is idle, and every sequence of these four
  operations leaves the state as it is.
\<close>

theorem empty_list_inert:
  "(items s = [] \<longrightarrow>
      target s = [] \<and> length (slots s) = 0 \<and> pick i s = s \<and> hint s = s \<and> check s = s
      \<and> (picked s = [] \<longrightarrow> removeLast s = s))
   \<and> items (startup (Some []) g) = [] \<and> picked (startup (Some []) g) = []
   \<and> status (startup (Some []) g) = Idle
   \<and> (set evs \<subseteq> range Pick \<union> {RemoveLast, Hint, Check} \<longrightarrow>
        run evs (startup (Some []) g) = startup (Some []) g)"
proof -
  have a: "items (startup (Some []) g) = []" and b: "picked (startup (Some []) g) = []"
    and c: "status (startup (Some []) g) = Idle"
    by (simp_all add: startup_empty mount_def loadItems_def)
  have "set evs \<subseteq> range Pick \<union> {RemoveLast, Hint, Check} \<longrightarrow>
        run evs (startup (Some []) g) = startup (Some []) g"
    using inert_run [OF a b] by blast
  moreover have "items s = [] \<longrightarrow>
      target s = [] \<and> length (slots s) = 0 \<and> pick i s = s \<and> hint s = s \<and> check s = s
      \<and> (picked s = [] \<longrightarrow> removeLast s = s)"
    by (simp add: target_empty slots_empty inert_ops)
  ultimately show ?thesis
    using a b c by blast
qed

text \<open>
  The startup state from an empty stored list.
\<close>

theorem empty_list_inert_witness:
  "items (startup (Some []) rng_lin) = [] \<and> picked (startup (Some []) rng_lin) = []
   \<and> set [Pick 0, Hint, RemoveLast, Check] \<subseteq> range Pick \<union> {RemoveLast, Hint, Check}
   \<and> removeLast (startup (Some []) rng_lin) = startup (Some []) rng_lin
   \<and> run [Pick 0, Hint, RemoveLast, Check] (startup (Some []) rng_lin) = startup (Some []) rng_lin
   \<and> status (run [Pick 0, Hint, RemoveLast, Check] (startup (Some []) rng_lin)) = Idle"
proof -
  have h: "set [Pick 0, Hint, RemoveLast, Check] \<subseteq> range Pick \<union> {RemoveLast, Hint, Check}"
    by auto
  show ?thesis
    using h empty_list_inert [of "startup (Some []) rng_lin" 0 rng_lin "[Pick 0, Hint, RemoveLast, Check]"]
    by simp
qed

lemma ext_txt: "ext_of \<lparr>file_name = js ''w.txt'', file_text = t\<rparr> = js ''txt''"
  by (simp add: ext_of_def js_def toLowerCase_def in_repertoire_def lower_unit_def)

lemma txt_not_json: "js ''txt'' \<noteq> js ''json''" "js ''txt'' \<noteq> js ''csv''"
  by (simp_all add: js_def)

lemma parseTXT_dashes: "parseTXT (js ''---'') = [\<lparr>word = js ''---'', hint_text = None\<rparr>]"
  by (simp add: parseTXT_def js_def trim_def is_space_def txt_item_def cell_def)

lemma dedupe_dashes: "dedupe [\<lparr>word = js ''---'', hint_text = None\<rparr>] = []"
  by (simp add: dedupe_def dedupe_step_def normalizeWord_def js_def is_punct_def is_space_def
      toLowerCase_def in_repertoire_def)

lemma upload_dashes:
  "onUpload no_json (Some \<lparr>file_name = js ''w.txt'', file_text = js ''---''\<rparr>)
       (pick 11 (startup None rng_lin))
     = ((pick 11 (startup None rng_lin))\<lparr>items := [], store := Some [], index := 0\<rparr>, None)"
proof -
  let ?s = "pick 11 (startup None rng_lin)"
  let ?n = "?s\<lparr>items := [], store := Some [], index := 0\<rparr>"
  have p: "parse_upload no_json \<lparr>file_name = js ''w.txt'', file_text = js ''---''\<rparr>
             = Inr [\<lparr>word = js ''---'', hint_text = None\<rparr>]"
    by (simp add: parse_upload_def ext_txt parseTXT_dashes txt_not_json)
  have "current ?n = None"
    by (simp add: current_def)
  then have "effect ?n = ?n"
    by (simp add: effect_def)
  then have "rerender ?s ?n = ?n"
    by (simp add: rerender_def)
  then show ?thesis
    by (simp add: onUpload_def p dedupe_dashes)
qed

text \<open>
  The claim as written fails for \<open>removeLast\<close> when the list became empty during play:
  after one pick on the default puzzle, the upload of a text file whose only line is
  \<open>---\<close> replaces the list by the empty list and leaves the picked stack alone.
\<close>

theorem empty_list_inert_counterexample:
  "items (fst (onUpload no_json (Some \<lparr>file_name = js ''w.txt'', file_text = js ''---''\<rparr>)
                 (pick 11 (startup None rng_lin)))) = []
   \<and> removeLast (fst (onUpload no_json (Some \<lparr>file_name = js ''w.txt'', file_text = js ''---''\<rparr>)
                 (pick 11 (startup None rng_lin))))
      \<noteq> fst (onUpload no_json (Some \<lparr>file_name = js ''w.txt'', file_text = js ''---''\<rparr>)
                 (pick 11 (startup None rng_lin)))"
proof -
  let ?u = "(pick 11 (startup None rng_lin))\<lparr>items := [], store := Some [], index := 0\<rparr>"
  have "picked ?u = [([68], 11)]" and "status ?u = Idle"
    by (simp_all add: pick_11) (simp add: startup_default)
  then have "picked (removeLast ?u) = []"
    by (simp add: removeLast_def)
  then have "removeLast ?u \<noteq> ?u"
    using \<open>picked ?u = [([68], 11)]\<close> by auto
  then show ?thesis
    by (simp add: upload_dashes)
qed

section \<open>The scenario of the default word\<close>

lemma cell_Some: "cell b i = Some c \<longleftrightarrow> i < length b \<and> b ! i = c"
  by (auto simp: cell_def)

lemma slots_upd [simp]:
  "slots (s\<lparr>picked := p\<rparr>) = slots s"
  "slots (s\<lparr>shuffled := b\<rparr>) = slots s"
  "slots (s\<lparr>status := st\<rparr>) = slots s"
  by (simp_all add: slots_def displayWord_def)

lemma picks_valid:
  assumes "status s = Idle" and "distinct is"
    and "\<forall>i \<in> set is. i < length (shuffled s) \<and> shuffled s ! i \<noteq> []"
    and "length (picked s) + revealed s + length is \<le> length (slots s)"
  shows "picks is s =
           s\<lparr>picked := picked s @ map (\<lambda>i. (shuffled s ! i, i)) is,
             shuffled := fold (\<lambda>i b. b[i := []]) is (shuffled s)\<rparr>"
  using assms
proof (induction "is" arbitrary: s)
  case Nil
  then show ?case by (simp add: picks_def)
next
  case (Cons i "is")
  let ?s = "s\<lparr>picked := picked s @ [(shuffled s ! i, i)], shuffled := (shuffled s)[i := []]\<rparr>"
  have v: "valid_pick i s"
    using Cons.prems by (simp add: valid_pick_def)
  have p: "pick i s = ?s"
    by (rule pick_valid [OF v])
  have same: "map (\<lambda>j. ((shuffled s)[i := []] ! j, j)) is = map (\<lambda>j. (shuffled s ! j, j)) is"
    using Cons.prems(2) by (auto intro!: nth_list_update_neq)
  have "picks is ?s =
          ?s\<lparr>picked := picked ?s @ map (\<lambda>j. (shuffled ?s ! j, j)) is,
              shuffled := fold (\<lambda>i b. b[i := []]) is (shuffled ?s)\<rparr>"
    using Cons.prems by (intro Cons.IH) (auto simp: nth_list_update)
  then show ?case
    by (simp add: picks_Cons p same)
qed

lemma candidate_DRAGON:
  assumes "target s = js ''DRAGON''" and "revealed s = 0"
  shows "rebuildWithPunctuation (picked s) (displayWord s) (revealed s)
           = concat (rebuild_loop (map fst (picked s)) 0
               (map (\<lambda>c. \<lparr>char = [c], isLetter = True, slot_revealed = False\<rparr>) (js ''DRAGON'')))"
  using assms
  by (simp add: displayWord_def displayWord_DRAGON rebuildWithPunctuation_def)

lemma normalize_DRAGO: "normalizeWord (js ''DRAGO'') = js ''drago''"
  by (simp add: normalizeWord_def js_def is_punct_def is_space_def toLowerCase_def in_repertoire_def lower_unit_def)

lemma pick_locked: "status s \<noteq> Idle \<Longrightarrow> pick i s = s"
  by (simp add: pick_def onTileClick_def)

lemma dragon_run:
  assumes t: "target s = js ''DRAGON''" and st: "status s = Idle" and r: "revealed s = 0"
    and p: "picked s = []"
    and d: "distinct [i1, i2, i3, i4, i5, i6]"
    and tl: "map (cell (shuffled s)) [i1, i2, i3, i4, i5, i6] = map Some (split_units (js ''DRAGON''))"
  shows "status (check (picks [i1, i2, i3, i4, i5] s)) = Wrong"
    and "pick i6 (check (picks [i1, i2, i3, i4, i5] s)) = check (picks [i1, i2, i3, i4, i5] s)"
    and "status (check (pick i6 (check (picks [i1, i2, i3, i4, i5] s)))) = Wrong"
    and "status (check (picks [i1, i2, i3, i4, i5, i6] s)) = Correct"
proof -
  have c: "i1 < length (shuffled s)" "i2 < length (shuffled s)" "i3 < length (shuffled s)"
    "i4 < length (shuffled s)" "i5 < length (shuffled s)" "i6 < length (shuffled s)"
    "shuffled s ! i1 = [68]" "shuffled s ! i2 = [82]" "shuffled s ! i3 = [65]"
    "shuffled s ! i4 = [71]" "shuffled s ! i5 = [79]" "shuffled s ! i6 = [78]"
    using tl by (simp_all add: split_units_def js_def cell_def split: if_splits)
  have n: "length (slots s) = 6"
    by (rule slots_DRAGON [OF t])
  let ?five = "picks [i1, i2, i3, i4, i5] s"
  let ?six = "picks [i1, i2, i3, i4, i5, i6] s"
  have five: "?five = s\<lparr>picked := [([68], i1), ([82], i2), ([65], i3), ([71], i4), ([79], i5)],
                 shuffled := fold (\<lambda>i b. b[i := []]) [i1, i2, i3, i4, i5] (shuffled s)\<rparr>"
    using d c by (subst picks_valid) (simp_all add: st p r n)
  have six: "?six = s\<lparr>picked := [([68], i1), ([82], i2), ([65], i3), ([71], i4), ([79], i5), ([78], i6)],
                 shuffled := fold (\<lambda>i b. b[i := []]) [i1, i2, i3, i4, i5, i6] (shuffled s)\<rparr>"
    using d c by (subst picks_valid) (simp_all add: st p r n)
  have cur5: "current ?five \<noteq> None" and cur6: "current ?six \<noteq> None"
    by (rule current_target, simp add: five t, simp add: js_def)
       (rule current_target, simp add: six t, simp add: js_def)
  have nt5: "normalizedTarget ?five = js ''dragon''" and nt6: "normalizedTarget ?six = js ''dragon''"
    by (simp_all add: normalizedTarget_def five six t normalize_DRAGON)
  have cand5: "rebuildWithPunctuation (picked ?five) (displayWord ?five) (revealed ?five) = js ''DRAGO''"
    by (subst candidate_DRAGON) (simp_all add: five t r js_def)
  have cand6: "rebuildWithPunctuation (picked ?six) (displayWord ?six) (revealed ?six) = js ''DRAGON''"
    by (subst candidate_DRAGON) (simp_all add: six t r js_def)
  have wrong: "check ?five = ?five\<lparr>status := Wrong\<rparr>"
    by (simp add: check_status [OF cur5] cand5 nt5 normalize_DRAGO) (simp add: js_def)
  show "status (check ?five) = Wrong"
    by (simp add: wrong)
  show locked: "pick i6 (check ?five) = check ?five"
    by (rule pick_locked) (simp add: wrong)
  have again: "check (check ?five) = check ?five"
    using cur5 cand5 nt5
    by (simp add: wrong check_def Let_def displayWord_def normalizedTarget_def normalize_DRAGO
        split: option.splits)
  have "check (pick i6 (check ?five)) = check (check ?five)"
    by (simp only: locked)
  also note again
  finally show "status (check (pick i6 (check ?five))) = Wrong"
    by (simp add: wrong)
  show "status (check ?six) = Correct"
    by (simp add: check_status [OF cur6] cand6 nt6 normalize_DRAGON)
qed

text \<open>
  Claim C6, as the code has it. On the target DRAGON with no hint used and nothing picked,
  picking tiles that hold D, R, A, G, O and checking gives Wrong. The status is then not
  idle, so a pick of a tile holding N changes nothing and a second check gives Wrong
  again. Picking D, R, A, G, O, N before any check gives Correct.
\<close>

theorem dragon_scenario:
  assumes "target s = js ''DRAGON''" and "status s = Idle" and "revealed s = 0"
    and "picked s = []"
    and "distinct [i1, i2, i3, i4, i5, i6]"
    and "map (cell (shuffled s)) [i1, i2, i3, i4, i5, i6] = map Some (split_units (js ''DRAGON''))"
  shows "status (check (picks [i1, i2, i3, i4, i5] s)) = Wrong
       \<and> pick i6 (check (picks [i1, i2, i3, i4, i5] s)) = check (picks [i1, i2, i3, i4, i5] s)
       \<and> status (check (pick i6 (check (picks [i1, i2, i3, i4, i5] s)))) = Wrong
       \<and> status (check (picks [i1, i2, i3, i4, i5, i6] s)) = Correct"
  using dragon_run [OF assms] by simp

lemma dragon_default:
  "target (startup None rng_lin) = js ''DRAGON''" "status (startup None rng_lin) = Idle"
  "revealed (startup None rng_lin) = 0" "picked (startup None rng_lin) = []"
  "distinct [11, 2, 1, 10, 0, 4 :: nat]"
  "map (cell (shuffled (startup None rng_lin))) [11, 2, 1, 10, 0, 4]
     = map Some (split_units (js ''DRAGON''))"
  by (simp_all add: target_startup_default)
     (simp_all add: startup_default cell_def split_units_def js_def)

text \<open>
  The default puzzle with the draws \<open>rng_lin\<close> has D, R, A, G, O, N at the bank positions
  11, 2, 1, 10, 0, 4.
\<close>

theorem dragon_scenario_witness:
  "target (startup None rng_lin) = js ''DRAGON'' \<and> status (startup None rng_lin) = Idle
   \<and> revealed (startup None rng_lin) = 0 \<and> picked (startup None rng_lin) = []
   \<and> distinct [11, 2, 1, 10, 0, 4 :: nat]
   \<and> map (cell (shuffled (startup None rng_lin))) [11, 2, 1, 10, 0, 4]
        = map Some (split_units (js ''DRAGON''))
   \<and> status (check (picks [11, 2, 1, 10, 0] (startup None rng_lin))) = Wrong
   \<and> status (check (pick 4 (check (picks [11, 2, 1, 10, 0] (startup None rng_lin))))) = Wrong
   \<and> status (check (picks [11, 2, 1, 10, 0, 4] (startup None rng_lin))) = Correct"
  using dragon_default dragon_scenario [OF dragon_default] by blast

text \<open>
  The claim as written ends in Correct. On the default puzzle the tile at position 4
  holds N, and after the first check gave Wrong, picking it and checking again does not
  give Correct.
\<close>

theorem dragon_scenario_counterexample:
  "shuffled (startup None rng_lin) ! 4 = js ''N''
   \<and> status (check (picks [11, 2, 1, 10, 0] (startup None rng_lin))) = Wrong
   \<and> status (check (pick 4 (check (picks [11, 2, 1, 10, 0] (startup None rng_lin))))) \<noteq> Correct"
proof -
  have "shuffled (startup None rng_lin) ! 4 = js ''N''"
    by (simp add: startup_default js_def)
  then show ?thesis
    using dragon_run(1,3) [OF dragon_default] by simp
qed

section \<open>Checking in a locked state\<close>

text \<open>
  A status other than idle is never left for idle by \<open>pick\<close>, \<open>removeLast\<close>, \<open>hint\<close> and
  \<open>check\<close>; but \<open>check\<close> can replace one verdict by the other.
\<close>


lemma check_status_kept: "status (check s) = status s \<or> status (check s) = Correct \<or> status (check s) = Wrong"
  by (cases "current s") (simp_all add: check_def Let_def)

lemma never_idle_again:
  "status s \<noteq> Idle \<Longrightarrow> set evs \<subseteq> range Pick \<union> {RemoveLast, Hint, Check} \<Longrightarrow>
     status (run evs s) \<noteq> Idle"
proof (induction evs arbitrary: s)
  case Nil
  then show ?case by simp
next
  case (Cons e evs)
  have "status (fire e s) \<noteq> Idle"
    using Cons.prems check_status_kept [of s] by auto
  then show ?case using Cons by simp
qed

lemma displayWord_DRAGON_one:
  "displayWord_of (js ''DRAGON'') (Suc 0) =
     \<lparr>char = [68], isLetter = True, slot_revealed = True\<rparr>
       # map (\<lambda>c. \<lparr>char = [c], isLetter = True, slot_revealed = False\<rparr>) (js ''RAGON'')"
  by (simp add: displayWord_of_def js_def is_letter_def)

lemma check_fields:
  "picked (check s) = picked s" "revealed (check s) = revealed s" "target (check s) = target s"
  by (cases "current s"; simp add: check_def Let_def)+

lemma all_six_then_hint:
  "status (run [Pick 11, Pick 2, Pick 1, Pick 10, Pick 0, Pick 4, Check] (startup None rng_lin)) = Correct"
  "status (run [Hint, Check]
     (run [Pick 11, Pick 2, Pick 1, Pick 10, Pick 0, Pick 4, Check] (startup None rng_lin))) = Wrong"
proof -
  define six where "six = picks [11, 2, 1, 10, 0, 4] (startup None rng_lin)"
  define h where "h = hint (check six)"
  have r: "run [Pick 11, Pick 2, Pick 1, Pick 10, Pick 0, Pick 4, Check] (startup None rng_lin) = check six"
    unfolding six_def by (simp add: picks_def)
  have ok: "status (check six) = Correct"
    unfolding six_def by (rule dragon_run(4) [OF dragon_default])
  show "status (run [Pick 11, Pick 2, Pick 1, Pick 10, Pick 0, Pick 4, Check] (startup None rng_lin)) = Correct"
    by (simp only: r ok)
  have six: "six = (startup None rng_lin)
         \<lparr>picked := [([68], 11), ([82], 2), ([65], 1), ([71], 10), ([79], 0), ([78], 4)],
          shuffled := fold (\<lambda>i b. b[i := []]) [11, 2, 1, 10, 0, 4] (shuffled (startup None rng_lin))\<rparr>"
    unfolding six_def
    by (subst picks_valid)
       (simp_all add: slots_DRAGON [OF target_startup_default], simp_all add: startup_default)
  have p6: "picked six = [([68], 11), ([82], 2), ([65], 1), ([71], 10), ([79], 0), ([78], 4)]"
    and r6: "revealed six = 0"
    unfolding six by (simp_all add: startup_default)
  have t6: "target six = js ''DRAGON''"
    by (subst six) (simp add: target_startup_default)
  have tc: "target (check six) = js ''DRAGON''" and rc: "revealed (check six) = 0"
    by (simp_all add: check_fields t6 r6)
  have hh: "h = (check six)\<lparr>revealed := 1\<rparr>"
    unfolding h_def using hint_DRAGON [OF tc] rc by simp
  have ph: "picked h = [([68], 11), ([82], 2), ([65], 1), ([71], 10), ([79], 0), ([78], 4)]"
    and rh: "revealed h = 1" and th: "target h = js ''DRAGON''"
    by (simp_all add: hh check_fields p6 t6)
  have curh: "current h \<noteq> None"
    by (rule current_target) (simp add: th js_def)
  have cand: "rebuildWithPunctuation (picked h) (displayWord h) (revealed h) = js ''DDRAGO''"
    by (simp add: displayWord_def th ph rh displayWord_DRAGON_one rebuildWithPunctuation_def)
       (simp add: js_def)
  have nt: "normalizedTarget h = js ''dragon''"
    by (simp add: normalizedTarget_def th normalize_DRAGON)
  have nu: "normalizeWord (js ''DDRAGO'') = js ''ddrago''"
    by (simp add: normalizeWord_def js_def is_punct_def is_space_def toLowerCase_def
        in_repertoire_def lower_unit_def)
  have ne: "js ''ddrago'' \<noteq> js ''dragon''"
    by (simp add: js_def)
  have "status (check h) = Wrong"
    by (simp add: check_status [OF curh] cand nt nu ne)
  moreover have "run [Hint, Check] (check six) = check h"
    by (simp add: h_def)
  ultimately show "status (run [Hint, Check]
     (run [Pick 11, Pick 2, Pick 1, Pick 10, Pick 0, Pick 4, Check] (startup None rng_lin))) = Wrong"
    by (simp only: r)
qed


text \<open>
  Claim C2 at a failing input. \<open>check\<close> lacks the status guard of \<open>onTileClick\<close> and
  \<open>removeLast\<close>, so it has effect outside idle and the verdict is not locked. On the
  default puzzle: a check of the empty attempt gives Wrong, and six hints and a second
  check turn it into Correct; picking D, R, A, G, O, N and checking gives Correct, and
  one hint and a second check turn it into Wrong (the candidate is then \<open>DDRAGO\<close>).
  Neither run calls \<open>next\<close> or \<open>reset\<close>.
\<close>

theorem check_unguarded:
  "status (run [Check] (startup None rng_lin)) = Wrong
   \<and> status (run [Hint, Hint, Hint, Hint, Hint, Hint, Check] (run [Check] (startup None rng_lin)))
        = Correct
   \<and> status (run [Pick 11, Pick 2, Pick 1, Pick 10, Pick 0, Pick 4, Check] (startup None rng_lin))
        = Correct
   \<and> status (run [Hint, Check]
         (run [Pick 11, Pick 2, Pick 1, Pick 10, Pick 0, Pick 4, Check] (startup None rng_lin)))
        = Wrong"
  using check_after_hints all_six_then_hint by simp

section \<open>Hints on a target with punctuation\<close>

lemma current_hyphen: "current (mount (Some hyphen_set) g) \<noteq> None"
  by (simp add: mount_def current_def loadItems_def hyphen_set_def)

lemma effect_items: "items (effect s) = items s" "index (effect s) = index s"
  by (simp_all add: effect_def split_beta split: option.splits)

lemma target_effect: "target (effect s) = target s"
  by (simp add: target_def current_def effect_items)

lemma target_hyphen: "target (startup (Some hyphen_set) g) = js ''A-B''"
  by (simp add: startup_mount target_effect)
     (simp add: target_def current_def mount_def loadItems_def hyphen_set_def trim_def js_def is_space_def)

lemma hyphen_fields:
  "picked (startup (Some hyphen_set) g) = []" "status (startup (Some hyphen_set) g) = Idle"
  "revealed (startup (Some hyphen_set) g) = 0"
  by (simp_all add: startup_mount effect_fields [OF current_hyphen])

lemma slots_hyphen: "target s = js ''A-B'' \<Longrightarrow> length (slots s) = 2"
  by (simp add: length_slots) (simp add: js_def is_letter_def)

lemma two_hints:
  "run [Hint, Hint] (startup (Some hyphen_set) g) = (startup (Some hyphen_set) g)\<lparr>revealed := 2\<rparr>"
  by (simp add: hint_def slots_hyphen target_hyphen hyphen_fields)

lemma displayWord_hyphen:
  "displayWord_of (js ''A-B'') 2 =
     [\<lparr>char = js ''A'', isLetter = True, slot_revealed = True\<rparr>,
      \<lparr>char = js ''-'', isLetter = False, slot_revealed = True\<rparr>,
      \<lparr>char = js ''B'', isLetter = True, slot_revealed = False\<rparr>]"
  by (simp add: displayWord_of_def js_def is_letter_def)

text \<open>
  Claim C3 at a failing input. The target \<open>A-B\<close> has two letter slots, so two hints are
  accepted. The first two letter slots are the positions 0 and 2, but the slots flagged
  as revealed are the positions 0 and 1: the row shows A, the hyphen and an empty slot,
  the candidate string is \<open>A-\<close>, \<open>check\<close> gives Wrong, and no pick is accepted any more
  because the two hints count as two filled letter slots.
\<close>

theorem hint_reveals_by_position:
  "revealed (run [Hint, Hint] (startup (Some hyphen_set) rng_lin)) = 2
   \<and> length (slots (run [Hint, Hint] (startup (Some hyphen_set) rng_lin))) = 2
   \<and> map isLetter (displayWord (run [Hint, Hint] (startup (Some hyphen_set) rng_lin)))
        = [True, False, True]
   \<and> map slot_revealed (displayWord (run [Hint, Hint] (startup (Some hyphen_set) rng_lin)))
        = [True, True, False]
   \<and> shown (run [Hint, Hint] (startup (Some hyphen_set) rng_lin)) = [js ''A'', js ''-'', []]
   \<and> rebuildWithPunctuation (picked (run [Hint, Hint] (startup (Some hyphen_set) rng_lin)))
          (displayWord (run [Hint, Hint] (startup (Some hyphen_set) rng_lin)))
          (revealed (run [Hint, Hint] (startup (Some hyphen_set) rng_lin))) = js ''A-''
   \<and> status (check (run [Hint, Hint] (startup (Some hyphen_set) rng_lin))) = Wrong
   \<and> pick i (run [Hint, Hint] (startup (Some hyphen_set) rng_lin))
        = run [Hint, Hint] (startup (Some hyphen_set) rng_lin)"
proof -
  let ?s = "(startup (Some hyphen_set) rng_lin)\<lparr>revealed := 2\<rparr>"
  have t: "target ?s = js ''A-B''"
    by (simp add: target_hyphen)
  have d: "displayWord ?s = displayWord_of (js ''A-B'') 2"
    by (simp add: displayWord_def target_hyphen)
  have p: "picked ?s = []" and r: "revealed ?s = 2"
    by (simp_all add: hyphen_fields)
  have n: "length (slots ?s) = 2"
    by (rule slots_hyphen [OF t])
  have cand: "rebuildWithPunctuation (picked ?s) (displayWord ?s) (revealed ?s) = js ''A-''"
    by (simp add: d p displayWord_hyphen rebuildWithPunctuation_def) (simp add: js_def)
  have c: "current ?s \<noteq> None"
    by (rule current_target) (simp add: target_hyphen js_def)
  have "normalizeWord (js ''A-B'') = js ''ab''"
    by (simp add: normalizeWord_def js_def is_punct_def is_space_def toLowerCase_def in_repertoire_def lower_unit_def)
  then have nt: "normalizedTarget ?s = js ''ab''"
    by (simp add: normalizedTarget_def target_hyphen)
  have nu: "normalizeWord (js ''A-'') = js ''a''"
    by (simp add: normalizeWord_def js_def is_punct_def is_space_def toLowerCase_def in_repertoire_def lower_unit_def)
  have ne: "js ''a'' \<noteq> js ''ab''"
    by (simp add: js_def)
  have "check ?s = ?s\<lparr>status := (if normalizeWord (rebuildWithPunctuation (picked ?s) (displayWord ?s) (revealed ?s))
                                  = normalizedTarget ?s then Correct else Wrong)\<rparr>"
    by (rule check_status [OF c])
  also have "\<dots> = ?s\<lparr>status := Wrong\<rparr>"
    by (simp only: cand nt nu ne if_False)
  finally have w: "status (check ?s) = Wrong"
    by simp
  have sh: "shown ?s = [js ''A'', js ''-'', []]"
    by (simp add: shown_def d p r target_hyphen displayWord_hyphen renderPickedChar_def)
       (simp add: js_def)
  have pk: "pick i ?s = ?s"
    by (simp add: pick_def onTileClick_def n p r)
  show ?thesis
    unfolding two_hints
    using n cand w sh pk r
    by (simp add: d displayWord_hyphen)
qed

section \<open>Failing uploads\<close>

lemma upload_failure:
  "parse_upload jp f = Inl e \<Longrightarrow> onUpload jp (Some f) s = (s, Some e)"
  "parse_upload jp f = Inr [] \<Longrightarrow> onUpload jp (Some f) s = (s, Some NoWords)"
  by (simp_all add: onUpload_def)

lemma upload_unchanged: "snd (onUpload jp fo s) \<noteq> None \<Longrightarrow> fst (onUpload jp fo s) = s"
  by (auto simp: onUpload_def Let_def split: option.splits sum.splits if_splits)

lemma parseCSV_header: "parseCSV (js ''word,hint'') = []"
  by (simp add: parseCSV_def js_def csv_row_def trim_def is_space_def cell_def
      toLowerCase_def in_repertoire_def lower_unit_def List.map_filter_simps)

lemma csv_not_json: "js ''csv'' \<noteq> js ''json''"
  by (simp add: js_def)

lemma parse_header_only:
  "ext_of f = js ''csv'' \<Longrightarrow> file_text f = js ''word,hint'' \<Longrightarrow> parse_upload jp f = Inr []"
  by (simp add: parse_upload_def parseCSV_header csv_not_json)

lemma parse_bad_json:
  "ext_of f = js ''json'' \<Longrightarrow> jp (file_text f) = None \<Longrightarrow> parse_upload jp f = Inl SyntaxError"
  by (simp add: parse_upload_def)

text \<open>
  The rejections of \<open>onUpload\<close>. Whenever it reports a failure, the state (word list,
  index and session store included) is the one before. It reports the error of a parse
  that fails, and the error \<open>NoWords\<close> when the parse yields no item; a JSON text the
  parser rejects is such a failing parse, and a CSV text that is only the header row
  \<open>word,hint\<close> yields no item. The session store is taken not to fail.
\<close>

lemma upload_rejections:
  "(snd (onUpload jp fo s) \<noteq> None \<longrightarrow> fst (onUpload jp fo s) = s)
   \<and> (parse_upload jp f = Inl e \<longrightarrow> onUpload jp (Some f) s = (s, Some e))
   \<and> (parse_upload jp f = Inr [] \<longrightarrow> onUpload jp (Some f) s = (s, Some NoWords))
   \<and> (ext_of f = js ''json'' \<and> jp (file_text f) = None \<longrightarrow> parse_upload jp f = Inl SyntaxError)
   \<and> (ext_of f = js ''csv'' \<and> file_text f = js ''word,hint'' \<longrightarrow> parse_upload jp f = Inr [])"
  using upload_unchanged [of jp fo s]
  by (simp add: upload_failure parse_header_only parse_bad_json)

lemma upload_dashes_any:
  "onUpload jp (Some \<lparr>file_name = js ''w.txt'', file_text = js ''---''\<rparr>) s
     = (s\<lparr>items := [], store := Some [], index := 0\<rparr>, None)"
proof -
  let ?n = "s\<lparr>items := [], store := Some [], index := 0\<rparr>"
  have p: "parse_upload jp \<lparr>file_name = js ''w.txt'', file_text = js ''---''\<rparr>
             = Inr [\<lparr>word = js ''---'', hint_text = None\<rparr>]"
    by (simp add: parse_upload_def ext_txt parseTXT_dashes txt_not_json)
  have "current ?n = None"
    by (simp add: current_def)
  then have "effect ?n = ?n"
    by (simp add: effect_def)
  then have "rerender s ?n = ?n"
    by (simp add: rerender_def)
  then show ?thesis
    by (simp add: onUpload_def p dedupe_dashes)
qed

lemma normalize_dashes: "normalizeWord (js ''---'') = []"
  by (simp add: normalizeWord_def js_def is_punct_def is_space_def toLowerCase_def in_repertoire_def)

text \<open>
  Claim C5 at a failing input. A text file whose only line is \<open>---\<close> parses to one item,
  so the test \<open>parsed.length === 0\<close> lets it pass; its key is empty, so \<open>dedupe\<close> drops
  it. The file has no usable item, yet nothing is reported: uploaded to the default
  puzzle, it replaces the five default words by the empty list, writes the empty list
  to the session store, which held nothing, and calls no \<open>alert\<close>.
\<close>

theorem upload_empty_keys:
  "parse_upload no_json \<lparr>file_name = js ''w.txt'', file_text = js ''---''\<rparr>
     = Inr [\<lparr>word = js ''---'', hint_text = None\<rparr>]
   \<and> normalizeWord (js ''---'') = []
   \<and> dedupe [\<lparr>word = js ''---'', hint_text = None\<rparr>] = []
   \<and> items (startup None rng_lin) = defaultSet
   \<and> store (startup None rng_lin) = None
   \<and> onUpload no_json (Some \<lparr>file_name = js ''w.txt'', file_text = js ''---''\<rparr>)
         (startup None rng_lin)
       = ((startup None rng_lin)\<lparr>items := [], store := Some [], index := 0\<rparr>, None)"
proof -
  have "parse_upload no_json \<lparr>file_name = js ''w.txt'', file_text = js ''---''\<rparr>
          = Inr [\<lparr>word = js ''---'', hint_text = None\<rparr>]"
    by (simp add: parse_upload_def ext_txt parseTXT_dashes txt_not_json)
  moreover have "items (startup None rng_lin) = defaultSet" "store (startup None rng_lin) = None"
    by (simp_all add: startup_default)
  ultimately show ?thesis
    by (simp add: normalize_dashes dedupe_dashes upload_dashes_any)
qed

section \<open>Deduplication and the cap\<close>

lemma dedupe_step_eq:
  "dedupe_step (seen, out) it =
     (if key_of it = [] \<or> key_of it \<in> seen then (seen, out)
      else (insert (key_of it) seen, out @ [display_item it]))"
  by (simp add: dedupe_step_def key_of_def display_item_def Let_def)

lemma dedupe_spec_snoc:
  "dedupe_spec (xs @ [x]) =
     dedupe_spec xs @ (if key_of x \<noteq> [] \<and> key_of x \<notin> key_of ` set xs then [display_item x] else [])"
proof -
  let ?keep = "\<lambda>arr k. key_of (arr ! k) \<noteq> [] \<and> (\<forall>j<k. key_of (arr ! j) \<noteq> key_of (arr ! k))"
  have old: "filter (?keep (xs @ [x])) [0 ..< length xs] = filter (?keep xs) [0 ..< length xs]"
    by (rule filter_cong) (auto simp: nth_append)
  have old_map: "map (\<lambda>k. display_item ((xs @ [x]) ! k)) (filter (?keep xs) [0 ..< length xs])
                   = map (\<lambda>k. display_item (xs ! k)) (filter (?keep xs) [0 ..< length xs])"
    by (rule map_cong) (auto simp: nth_append)
  have last: "?keep (xs @ [x]) (length xs) \<longleftrightarrow> key_of x \<noteq> [] \<and> key_of x \<notin> key_of ` set xs"
  proof -
    have "(\<forall>j<length xs. key_of ((xs @ [x]) ! j) \<noteq> key_of x)
            \<longleftrightarrow> (\<forall>y \<in> set xs. key_of y \<noteq> key_of x)"
      by (simp add: nth_append all_set_conv_all_nth)
    also have "\<dots> \<longleftrightarrow> key_of x \<notin> key_of ` set xs"
      by (metis image_iff)
    finally show ?thesis by simp
  qed
  have "dedupe_spec (xs @ [x]) =
          map (\<lambda>k. display_item ((xs @ [x]) ! k)) (filter (?keep (xs @ [x])) [0 ..< length xs])
          @ (if ?keep (xs @ [x]) (length xs) then [display_item x] else [])"
    by (simp add: dedupe_spec_def)
  also have "\<dots> = dedupe_spec xs
          @ (if key_of x \<noteq> [] \<and> key_of x \<notin> key_of ` set xs then [display_item x] else [])"
    by (simp only: old old_map last dedupe_spec_def)
  finally show ?thesis .
qed

lemma dedupe_loop_inv:
  "foldl dedupe_step ({}, []) xs = ({k \<in> key_of ` set xs. k \<noteq> []}, dedupe_spec xs)"
proof (induction xs rule: rev_induct)
  case Nil
  then show ?case by (simp add: dedupe_spec_def)
next
  case (snoc x xs)
  have "{k \<in> key_of ` set (xs @ [x]). k \<noteq> []}
          = (if key_of x = [] then {k \<in> key_of ` set xs. k \<noteq> []}
             else insert (key_of x) {k \<in> key_of ` set xs. k \<noteq> []})"
    by auto
  then show ?case
    by (auto simp: snoc.IH dedupe_step_eq dedupe_spec_snoc)
qed

lemma dedupe_refines: "dedupe arr = dedupe_spec arr"
  by (simp add: dedupe_def dedupe_loop_inv)

lemma dedupe_spec_distinct:
  "distinct (map key_of ps) \<Longrightarrow> [] \<notin> set (map key_of ps) \<Longrightarrow> dedupe_spec ps = map display_item ps"
proof (induction ps rule: rev_induct)
  case Nil
  then show ?case by (simp add: dedupe_spec_def)
next
  case (snoc x xs)
  then show ?case
    by (auto simp: dedupe_spec_snoc)
qed

lemma rerender_items: "items (rerender s n) = items n"
  by (simp add: rerender_def effect_items)

lemma upload_items:
  "parse_upload jp f = Inr ps \<Longrightarrow> ps \<noteq> [] \<Longrightarrow>
     items (fst (onUpload jp (Some f) s)) = take 20 (dedupe ps)"
  by (simp add: onUpload_def Let_def rerender_items)

lemma parse_text:
  "ext_of f \<noteq> js ''json'' \<Longrightarrow> ext_of f \<noteq> js ''csv'' \<Longrightarrow> parse_upload jp f = Inr (parseTXT (file_text f))"
  by (simp add: parse_upload_def)

text \<open>
  Claim C8. \<open>dedupe\<close> computes what the specification says: the first occurrence of
  each non-empty key, upper-cased, with its hint, in the original order. A successful
  upload keeps the first 20 items of the deduplicated list. In particular a text file
  that parses to 25 items with distinct non-empty keys gives exactly 20 items, the
  first 20 of the file in their order.
\<close>

theorem dedupe_and_cap:
  "dedupe arr = dedupe_spec arr
   \<and> (parse_upload jp f = Inr ps \<and> ps \<noteq> [] \<longrightarrow>
        items (fst (onUpload jp (Some f) s)) = take 20 (dedupe ps))
   \<and> (ext_of f \<noteq> js ''json'' \<and> ext_of f \<noteq> js ''csv''
        \<and> length (parseTXT (file_text f)) = 25
        \<and> distinct (map key_of (parseTXT (file_text f)))
        \<and> [] \<notin> set (map key_of (parseTXT (file_text f))) \<longrightarrow>
        items (fst (onUpload jp (Some f) s)) = map display_item (take 20 (parseTXT (file_text f)))
        \<and> length (items (fst (onUpload jp (Some f) s))) = 20)"
proof -
  have "items (fst (onUpload jp (Some f) s)) = map display_item (take 20 (parseTXT (file_text f)))
        \<and> length (items (fst (onUpload jp (Some f) s))) = 20"
    if e: "ext_of f \<noteq> js ''json''" "ext_of f \<noteq> js ''csv''"
      and n: "length (parseTXT (file_text f)) = 25"
      and d: "distinct (map key_of (parseTXT (file_text f)))"
      and k: "[] \<notin> set (map key_of (parseTXT (file_text f)))"
  proof -
    have "parseTXT (file_text f) \<noteq> []"
      using n by auto
    then have "items (fst (onUpload jp (Some f) s)) = take 20 (dedupe (parseTXT (file_text f)))"
      using parse_text [OF e] by (rule upload_items [rotated])
    also have "\<dots> = map display_item (take 20 (parseTXT (file_text f)))"
      by (simp add: dedupe_refines dedupe_spec_distinct [OF d k] take_map)
    finally show ?thesis
      using n by simp
  qed
  then show ?thesis
    by (simp add: dedupe_refines upload_items)
qed

lemma parse_letter_lines:
  "parseTXT letter_lines = map (\<lambda>c. \<lparr>word = [c], hint_text = None\<rparr>) [65 ..< 90]"
  by (simp add: letter_lines_def parseTXT_def txt_item_def trim_def is_space_def cell_def)

lemma keys_letter_lines:
  "map key_of (parseTXT letter_lines) = map (\<lambda>c. [c + 32]) [65 ..< 90]"
  by (simp add: parse_letter_lines key_of_def normalizeWord_def is_punct_def is_space_def
      toLowerCase_def in_repertoire_def lower_unit_def)

lemma letter_lines_ok:
  "length (parseTXT letter_lines) = 25"
  "distinct (map key_of (parseTXT letter_lines))"
  "[] \<notin> set (map key_of (parseTXT letter_lines))"
  by (simp add: parse_letter_lines, simp_all only: keys_letter_lines, simp_all)

lemma panda:
  "dedupe [\<lparr>word = js ''Panda'', hint_text = Some (js ''bear'')\<rparr>,
           \<lparr>word = js ''---'', hint_text = None\<rparr>,
           \<lparr>word = js ''PANDA'', hint_text = Some (js ''animal'')\<rparr>]
     = [\<lparr>word = js ''PANDA'', hint_text = Some (js ''bear'')\<rparr>]"
  by (simp add: dedupe_def dedupe_step_def normalizeWord_def js_def is_punct_def is_space_def
      toLowerCase_def lower_unit_def toUpperCase_def in_repertoire_def upper_unit_def)

text \<open>
  The 25 one-letter lines A to Y give the 20 items A to T; and of Panda, a line of
  hyphens and PANDA, the first is kept, upper-cased, with its own hint.
\<close>

theorem dedupe_and_cap_witness:
  "ext_of \<lparr>file_name = js ''w.txt'', file_text = letter_lines\<rparr> \<noteq> js ''json''
   \<and> ext_of \<lparr>file_name = js ''w.txt'', file_text = letter_lines\<rparr> \<noteq> js ''csv''
   \<and> length (parseTXT letter_lines) = 25
   \<and> distinct (map key_of (parseTXT letter_lines))
   \<and> [] \<notin> set (map key_of (parseTXT letter_lines))
   \<and> items (fst (onUpload no_json (Some \<lparr>file_name = js ''w.txt'', file_text = letter_lines\<rparr>)
          (startup None rng_lin)))
        = map (\<lambda>c. \<lparr>word = [c], hint_text = None\<rparr>) [65 ..< 85]
   \<and> dedupe_spec [\<lparr>word = js ''Panda'', hint_text = Some (js ''bear'')\<rparr>,
           \<lparr>word = js ''---'', hint_text = None\<rparr>,
           \<lparr>word = js ''PANDA'', hint_text = Some (js ''animal'')\<rparr>]
        = [\<lparr>word = js ''PANDA'', hint_text = Some (js ''bear'')\<rparr>]"
proof -
  let ?f = "\<lparr>file_name = js ''w.txt'', file_text = letter_lines\<rparr>"
  let ?zoo = "[\<lparr>word = js ''Panda'', hint_text = Some (js ''bear'')\<rparr>,
           \<lparr>word = js ''---'', hint_text = None\<rparr>,
           \<lparr>word = js ''PANDA'', hint_text = Some (js ''animal'')\<rparr>]"
  have e: "ext_of ?f \<noteq> js ''json''" "ext_of ?f \<noteq> js ''csv''"
    by (simp_all add: ext_txt txt_not_json)
  have t: "file_text ?f = letter_lines"
    by simp
  note inst = dedupe_and_cap [of ?zoo no_json ?f "parseTXT letter_lines" "startup None rng_lin"]
  have "items (fst (onUpload no_json (Some ?f) (startup None rng_lin)))
          = map display_item (take 20 (parseTXT letter_lines))"
    using inst e letter_lines_ok by (simp only: t) blast
  also have "\<dots> = map (\<lambda>c. \<lparr>word = [c], hint_text = None\<rparr>) [65 ..< 85]"
    by (simp add: parse_letter_lines display_item_def toUpperCase_def in_repertoire_def upper_unit_def)
  finally have a: "items (fst (onUpload no_json (Some ?f) (startup None rng_lin)))
          = map (\<lambda>c. \<lparr>word = [c], hint_text = None\<rparr>) [65 ..< 85]" .
  have "dedupe_spec ?zoo = dedupe ?zoo"
    using inst by simp
  then have b: "dedupe_spec ?zoo = [\<lparr>word = js ''PANDA'', hint_text = Some (js ''bear'')\<rparr>]"
    by (simp only: panda)
  show ?thesis
    using a b e letter_lines_ok by simp
qed

end
